theory Spec2Isabelle
  imports Complex_Main "HOL-Library.Word"
begin

section \<open>Page: the row-shelf packer\<close>

text \<open>
  A typed byte array (\<^verbatim>\<open>Uint8Array\<close>) is a list of 8-bit words. Reading past the end
  yields \<^verbatim>\<open>undefined\<close>, which a typed array stores as 0; writing past the end is
  ignored. Both are written out here.
\<close>

type_synonym byte = "8 word"

type_synonym texture = nat

definition u8get :: "byte list \<Rightarrow> nat \<Rightarrow> byte" where
  "u8get a i = (if i < length a then a ! i else 0)"

definition u8set :: "byte list \<Rightarrow> nat \<Rightarrow> byte \<Rightarrow> byte list" where
  "u8set a i v = (if i < length a then a[i := v] else a)"

text \<open>
  The class \<^verbatim>\<open>Page\<close>. The field \<^verbatim>\<open>lastAccessed\<close> (a wall-clock time stamp that
  nothing reads back) is left out; \<^verbatim>\<open>padding\<close> is the private constant 1. The texture
  handle is the serial number of the \<^verbatim>\<open>textureFactory.create\<close> call that returned
  it, as in the repository's own test factory.
\<close>

record Page =
  width :: nat
  height :: nat
  buffer :: "byte list"
  texture :: texture
  cursorX :: nat
  cursorY :: nat
  rowHeight :: nat
  dirty :: bool

definition padding :: nat where
  "padding = 1"

text \<open>The constructor: a zeroed buffer of \<open>width * height * 4\<close> bytes and a fresh texture.\<close>

definition newPage :: "nat \<Rightarrow> nat \<Rightarrow> texture \<Rightarrow> Page" where
  "newPage w h tex =
     \<lparr>width = w, height = h, buffer = replicate (w * h * 4) 0, texture = tex,
      cursorX = 0, cursorY = 0, rowHeight = 0, dirty = False\<rparr>"

text \<open>The inner loop of the blit: \<open>for col in 0 ..< w * 4\<close>.\<close>

definition copyRow :: "byte list \<Rightarrow> nat \<Rightarrow> nat \<Rightarrow> nat \<Rightarrow> byte list \<Rightarrow> byte list" where
  "copyRow pixels srcOffset dstOffset n buf =
     fold (\<lambda>col b. u8set b (dstOffset + col) (u8get pixels (srcOffset + col))) [0..<n] buf"

text \<open>The outer loop: \<open>for row in 0 ..< h\<close>, with the destination row flipped.\<close>

definition blit :: "byte list \<Rightarrow> nat \<Rightarrow> nat \<Rightarrow> nat \<Rightarrow> nat \<Rightarrow> nat \<Rightarrow> byte list \<Rightarrow> byte list" where
  "blit pixels w h pw x y buf =
     fold (\<lambda>row b.
             let srcOffset = row * w * 4;
                 dstRow = h - 1 - row;
                 dstOffset = ((y + dstRow) * pw + x) * 4
             in copyRow pixels srcOffset dstOffset (w * 4) b)
          [0..<h] buf"

text \<open>The shelf advance of \<^verbatim>\<open>tryAdd\<close>, taken when the glyph does not fit the current row.\<close>

definition advanceShelf :: "Page \<Rightarrow> nat \<Rightarrow> Page" where
  "advanceShelf p paddedW =
     (if cursorX p + paddedW > width p
      then p\<lparr>cursorY := cursorY p + (rowHeight p + padding), cursorX := 0, rowHeight := 0\<rparr>
      else p)"

text \<open>
  \<^verbatim>\<open>Page.tryAdd(pixels, w, h)\<close>: the result is the position or \<open>None\<close> (\<^verbatim>\<open>null\<close>),
  together with the page as the call leaves it. The shelf advance is kept even when the
  call then answers \<^verbatim>\<open>null\<close>.
\<close>

definition tryAdd :: "Page \<Rightarrow> byte list \<Rightarrow> nat \<Rightarrow> nat \<Rightarrow> (nat \<times> nat) option \<times> Page" where
  "tryAdd p pixels w h =
     (let paddedW = w + padding;
          paddedH = h + padding;
          p1 = advanceShelf p paddedW
      in if cursorY p1 + paddedH > height p1 then (None, p1)
         else
           let x = cursorX p1;
               y = cursorY p1;
               p2 = p1\<lparr>buffer := blit pixels w h (width p1) x y (buffer p1)\<rparr>;
               p3 = p2\<lparr>cursorX := cursorX p2 + paddedW,
                        rowHeight := max (rowHeight p2) paddedH,
                        dirty := True\<rparr>
           in (Some (x, y), p3))"

text \<open>\<^verbatim>\<open>Page.flush()\<close>: the upload to the texture backend is external; the flag is cleared.\<close>

definition flush :: "Page \<Rightarrow> Page" where
  "flush p = (if dirty p then p\<lparr>dirty := False\<rparr> else p)"


section \<open>Shared records (types.ts)\<close>

text \<open>
  Several source types have fields of the same name (\<open>width\<close>, \<open>height\<close>, \<open>texture\<close>,
  \<open>metrics\<close>, \<open>pendingGlyphs\<close>, and so on). A record field is a constant here, so all
  but the fields of \<^verbatim>\<open>Page\<close> and \<^verbatim>\<open>VariantAtlas\<close> carry a prefix: \<open>m\<close> for
  \<^verbatim>\<open>GlyphMetrics\<close>, \<open>pb\<close> for the plane bounds, \<open>p\<close> for the page copy inside a location,
  \<open>loc\<close> for \<^verbatim>\<open>GlyphLocation\<close>, \<open>i\<close> for \<^verbatim>\<open>GlyphInfo\<close>, \<open>ms\<close> and \<open>g\<close> for the
  generator's metrics and glyph, \<open>cfg\<close> for \<^verbatim>\<open>AtlasConfig\<close>, \<open>req\<close> for the request,
  \<open>pg\<close> for \<^verbatim>\<open>PendingGlyph\<close> and \<open>fa\<close> for \<^verbatim>\<open>FontAtlas\<close>. Numbers that the source
  uses as sizes, counts and code points are natural numbers.
\<close>

record PlaneBounds =
  pbL :: real
  pbB :: real
  pbR :: real
  pbT :: real

text \<open>\<^verbatim>\<open>GlyphMetrics\<close>: \<open>width\<close> and \<open>height\<close> are pixel counts.\<close>

record GlyphMetrics =
  mWidth :: nat
  mHeight :: nat
  advance :: real
  xOffset :: real
  yOffset :: real
  planeBounds :: PlaneBounds

text \<open>The \<open>page\<close> field of a location: a copy of the page's handle and size.\<close>

record PageInfo =
  pTexture :: texture
  pWidth :: nat
  pHeight :: nat

record GlyphLocation =
  locPage :: PageInfo
  locX :: nat
  locY :: nat
  locWidth :: nat
  locHeight :: nat
  locMetrics :: GlyphMetrics
  locEmpty :: bool
  locMissing :: bool

definition LATIN_RANGES :: "(nat \<times> nat) list" where
  "LATIN_RANGES = [(0x30, 0x39), (0x41, 0x5A), (0x61, 0x7A)]"

fun inRanges :: "(nat \<times> nat) list \<Rightarrow> nat \<Rightarrow> bool" where
  "inRanges [] codePoint = False"
| "inRanges ((start, end) # rs) codePoint =
     (if codePoint \<ge> start \<and> codePoint \<le> end then True else inRanges rs codePoint)"

definition isLatinChar :: "nat \<Rightarrow> bool" where
  "isLatinChar codePoint = inRanges LATIN_RANGES codePoint"

definition LATIN_CODEPOINTS :: "nat list" where
  "LATIN_CODEPOINTS = concat (map (\<lambda>(start, end). [start..<Suc end]) LATIN_RANGES)"

section \<open>VariantAtlas\<close>

definition PLACEHOLDER_METRICS :: GlyphMetrics where
  "PLACEHOLDER_METRICS =
     \<lparr>mWidth = 0, mHeight = 0, advance = 0, xOffset = 0, yOffset = 0,
      planeBounds = \<lparr>pbL = 0, pbB = 0, pbR = 0, pbT = 0\<rparr>\<rparr>"

text \<open>
  The generation size is \<open>None\<close> where the source carries \<^verbatim>\<open>undefined\<close> (a
  configuration whose \<open>genSizes\<close> is shorter than the scan of the thresholds needs).
  The glyph index maps a code point to its location; the source mutates the stored
  location object in place, which is an update of the map at that key. Time stamps are
  left out, as is the shared texture factory, whose state (the number of textures
  created so far) is passed to every operation that may create a page and returned by it.
\<close>

record VariantAtlas =
  variantId :: string
  genSize :: "nat option"
  latinPage :: "Page option"
  mixedPages :: "Page list"
  glyphIndex :: "nat \<rightharpoonup> GlyphLocation"
  pendingGlyphs :: "nat set"
  pageSize :: nat
  maxMixedPages :: nat

definition newVariantAtlas :: "string \<Rightarrow> nat option \<Rightarrow> nat \<Rightarrow> nat \<Rightarrow> VariantAtlas" where
  "newVariantAtlas vid gs ps mx =
     \<lparr>variantId = vid, genSize = gs, latinPage = None, mixedPages = [],
      glyphIndex = Map.empty, pendingGlyphs = {}, pageSize = ps, maxMixedPages = mx\<rparr>"

datatype error = LatinPageFull | FreshPageOverflow

text \<open>
  A page of an atlas is a shared mutable object; the model names it by where the atlas
  holds it and writes the page back after a call that changes it.
\<close>

datatype PageSel = LatinSel | MixedSel nat

definition setPage :: "PageSel \<Rightarrow> Page \<Rightarrow> VariantAtlas \<Rightarrow> VariantAtlas" where
  "setPage sel p va =
     (case sel of
        LatinSel \<Rightarrow> va\<lparr>latinPage := Some p\<rparr>
      | MixedSel i \<Rightarrow> va\<lparr>mixedPages := (mixedPages va)[i := p]\<rparr>)"

definition pageInfo :: "Page \<Rightarrow> PageInfo" where
  "pageInfo p = \<lparr>pTexture = texture p, pWidth = width p, pHeight = height p\<rparr>"

definition va_getGlyph :: "VariantAtlas \<Rightarrow> nat \<Rightarrow> GlyphLocation option" where
  "va_getGlyph va codePoint =
     (if codePoint \<in> pendingGlyphs va then None else glyphIndex va codePoint)"

text \<open>
  \<^verbatim>\<open>createMixedPage\<close>; the warning printed when \<open>maxMixedPages\<close> is reached changes
  nothing and is not modelled. The result names the new page, gives its value, the
  factory's new state and the atlas.
\<close>

definition createMixedPage :: "nat \<Rightarrow> VariantAtlas \<Rightarrow> PageSel \<times> Page \<times> nat \<times> VariantAtlas" where
  "createMixedPage n va =
     (let page = newPage (pageSize va) (pageSize va) n
      in (MixedSel (length (mixedPages va)), page, Suc n,
          va\<lparr>mixedPages := mixedPages va @ [page]\<rparr>))"

text \<open>
  The test \<open>page.cursorY + glyphHeight <= page.height\<close>; with \<^verbatim>\<open>undefined\<close> for the
  height the sum is NaN and the comparison is false.
\<close>

fun hasRoom :: "Page \<Rightarrow> nat option \<Rightarrow> bool" where
  "hasRoom p None = False"
| "hasRoom p (Some glyphHeight) = (cursorY p + glyphHeight \<le> height p)"

fun firstFit :: "nat option \<Rightarrow> nat \<Rightarrow> Page list \<Rightarrow> (nat \<times> Page) option" where
  "firstFit glyphHeight i [] = None"
| "firstFit glyphHeight i (p # ps) =
     (if hasRoom p glyphHeight then Some (i, p) else firstFit glyphHeight (Suc i) ps)"

definition getOrCreatePage ::
  "bool \<Rightarrow> nat option \<Rightarrow> nat \<Rightarrow> VariantAtlas \<Rightarrow> PageSel \<times> Page \<times> nat \<times> VariantAtlas" where
  "getOrCreatePage isLatin glyphHeight n va =
     (if isLatin then
        (case latinPage va of
           None \<Rightarrow>
             (let page = newPage (pageSize va) (pageSize va) n
              in (LatinSel, page, Suc n, va\<lparr>latinPage := Some page\<rparr>))
         | Some page \<Rightarrow> (LatinSel, page, n, va))
      else
        (case firstFit glyphHeight 0 (mixedPages va) of
           Some (i, page) \<Rightarrow> (MixedSel i, page, n, va)
         | None \<Rightarrow> createMixedPage n va))"

definition reserveGlyph :: "nat \<Rightarrow> nat \<Rightarrow> VariantAtlas \<Rightarrow> GlyphLocation \<times> nat \<times> VariantAtlas" where
  "reserveGlyph codePoint n va =
     (let isLatin = isLatinChar codePoint;
          (sel, page, n1, va1) = getOrCreatePage isLatin (genSize va) n va;
          va2 = va1\<lparr>pendingGlyphs := insert codePoint (pendingGlyphs va1)\<rparr>;
          location = \<lparr>locPage = pageInfo page, locX = 0, locY = 0, locWidth = 0, locHeight = 0,
                      locMetrics = PLACEHOLDER_METRICS, locEmpty = False, locMissing = False\<rparr>
      in (location, n1, va2\<lparr>glyphIndex := (glyphIndex va2)(codePoint \<mapsto> location)\<rparr>))"

definition updateGlyphLocation ::
  "nat \<Rightarrow> Page \<Rightarrow> nat \<times> nat \<Rightarrow> GlyphMetrics \<Rightarrow> VariantAtlas \<Rightarrow> VariantAtlas" where
  "updateGlyphLocation codePoint page pos metrics va =
     (let va1 =
        (case glyphIndex va codePoint of
           Some location \<Rightarrow>
             va\<lparr>glyphIndex := (glyphIndex va)(codePoint \<mapsto>
                  location\<lparr>locPage := pageInfo page, locX := fst pos, locY := snd pos,
                           locWidth := mWidth metrics, locHeight := mHeight metrics,
                           locMetrics := metrics, locEmpty := False, locMissing := False\<rparr>)\<rparr>
         | None \<Rightarrow> va)
      in va1\<lparr>pendingGlyphs := pendingGlyphs va1 - {codePoint}\<rparr>)"

definition storeGlyph ::
  "nat \<Rightarrow> Page \<Rightarrow> nat \<times> nat \<Rightarrow> GlyphMetrics \<Rightarrow> VariantAtlas \<Rightarrow> GlyphLocation \<times> VariantAtlas" where
  "storeGlyph codePoint page pos metrics va =
     (let location = \<lparr>locPage = pageInfo page, locX = fst pos, locY = snd pos,
                      locWidth = mWidth metrics, locHeight = mHeight metrics,
                      locMetrics = metrics, locEmpty = False, locMissing = False\<rparr>
      in (location,
          va\<lparr>glyphIndex := (glyphIndex va)(codePoint \<mapsto> location),
             pendingGlyphs := pendingGlyphs va - {codePoint}\<rparr>))"

text \<open>
  \<^verbatim>\<open>fillGlyph\<close>. A \<^verbatim>\<open>throw\<close> is the error in the first component; the atlas and the
  factory state are returned as the call leaves them, since the objects it mutated stay
  mutated.
\<close>

definition fillGlyph ::
  "nat \<Rightarrow> byte list \<Rightarrow> GlyphMetrics \<Rightarrow> nat \<Rightarrow> VariantAtlas \<Rightarrow> error option \<times> nat \<times> VariantAtlas" where
  "fillGlyph codePoint pixels metrics n va =
     (let isLatin = isLatinChar codePoint;
          (sel, page, n1, va1) = getOrCreatePage isLatin (Some (mHeight metrics)) n va;
          (pos, page') = tryAdd page pixels (mWidth metrics) (mHeight metrics);
          va2 = setPage sel page' va1
      in case pos of
           None \<Rightarrow>
             if isLatin then (Some LatinPageFull, n1, va2)
             else
               (let (newSel, newPage, n2, va3) = createMixedPage n1 va2;
                    (newPos, newPage') = tryAdd newPage pixels (mWidth metrics) (mHeight metrics);
                    va4 = setPage newSel newPage' va3
                in case newPos of
                     None \<Rightarrow> (Some FreshPageOverflow, n2, va4)
                   | Some np \<Rightarrow> (None, n2, updateGlyphLocation codePoint newPage' np metrics va4))
         | Some ps \<Rightarrow> (None, n1, updateGlyphLocation codePoint page' ps metrics va2))"

definition addGlyph ::
  "nat \<Rightarrow> byte list \<Rightarrow> GlyphMetrics \<Rightarrow> nat \<Rightarrow> VariantAtlas \<Rightarrow>
     (error + GlyphLocation) \<times> nat \<times> VariantAtlas" where
  "addGlyph codePoint pixels metrics n va =
     (let isLatin = isLatinChar codePoint;
          (sel, page, n1, va1) = getOrCreatePage isLatin (Some (mHeight metrics)) n va;
          (pos, page') = tryAdd page pixels (mWidth metrics) (mHeight metrics);
          va2 = setPage sel page' va1
      in case pos of
           None \<Rightarrow>
             if isLatin then (Inl LatinPageFull, n1, va2)
             else
               (let (newSel, newPage, n2, va3) = createMixedPage n1 va2;
                    (newPos, newPage') = tryAdd newPage pixels (mWidth metrics) (mHeight metrics);
                    va4 = setPage newSel newPage' va3
                in case newPos of
                     None \<Rightarrow> (Inl FreshPageOverflow, n2, va4)
                   | Some np \<Rightarrow>
                       (let (location, va5) = storeGlyph codePoint newPage' np metrics va4
                        in (Inr location, n2, va5)))
         | Some ps \<Rightarrow>
             (let (location, va3) = storeGlyph codePoint page' ps metrics va2
              in (Inr location, n1, va3)))"

definition markEmpty :: "nat \<Rightarrow> bool \<Rightarrow> VariantAtlas \<Rightarrow> VariantAtlas" where
  "markEmpty codePoint missing va =
     (let va1 =
        (case glyphIndex va codePoint of
           Some location \<Rightarrow>
             va\<lparr>glyphIndex := (glyphIndex va)(codePoint \<mapsto>
                  location\<lparr>locEmpty := True, locMissing := missing,
                           locWidth := 0, locHeight := 0\<rparr>)\<rparr>
         | None \<Rightarrow> va)
      in va1\<lparr>pendingGlyphs := pendingGlyphs va1 - {codePoint}\<rparr>)"

definition flushDirtyPages :: "VariantAtlas \<Rightarrow> VariantAtlas" where
  "flushDirtyPages va =
     va\<lparr>latinPage := map_option flush (latinPage va), mixedPages := map flush (mixedPages va)\<rparr>"

definition getPageCount :: "VariantAtlas \<Rightarrow> nat" where
  "getPageCount va = (if latinPage va \<noteq> None then 1 else 0) + length (mixedPages va)"


section \<open>FontAtlas\<close>

text \<open>
  The generator (kitMSDF) and its \<^verbatim>\<open>VariationAxis\<close> are outside this repository. The
  generator is an object with a loaded font and current variation axes; what it answers
  is a parameter of the model: three functions of that state and of the call's arguments.
  Pixel values and plane bounds are floating-point numbers in the source and real numbers
  here.
\<close>

typedecl VariationAxis

record MSDFMetrics =
  msWidth :: nat
  msHeight :: nat
  msAdvance :: real
  msPlaneBounds :: PlaneBounds

record MSDFGlyph =
  gMetrics :: MSDFMetrics
  gPixels :: "real list"

record MSDFGenerator =
  hasGlyph :: "byte list option \<Rightarrow> nat \<Rightarrow> bool"
  generateMTSDF :: "byte list option \<Rightarrow> nat \<Rightarrow> nat option \<Rightarrow> real \<Rightarrow> MSDFGlyph option"
  generateMTSDFVar ::
    "byte list option \<Rightarrow> VariationAxis list \<Rightarrow> nat \<Rightarrow> nat option \<Rightarrow> real \<Rightarrow> MSDFGlyph option"

record AtlasConfig =
  genSizes :: "nat list"
  sizeThresholds :: "real list"
  cfgPageSize :: nat
  cfgMaxMixedPages :: nat
  pixelRange :: real

definition DEFAULT_CONFIG :: AtlasConfig where
  "DEFAULT_CONFIG =
     \<lparr>genSizes = [32, 64, 128], sizeThresholds = [40, 80], cfgPageSize = 1024,
      cfgMaxMixedPages = 8, pixelRange = 4\<rparr>"

record GlyphRequest =
  codePoint :: nat
  reqVariantId :: string
  fontBuffer :: "byte list"
  variationAxes :: "VariationAxis list option"
  renderSize :: real

text \<open>A UV coordinate is \<open>None\<close> where the division yields NaN or an infinity.\<close>

record UVs =
  u0 :: "real option"
  v0 :: "real option"
  u1 :: "real option"
  v1 :: "real option"

record GlyphInfo =
  iTexture :: texture
  uvs :: UVs
  iMetrics :: GlyphMetrics
  iGenSize :: "nat option"
  cached :: bool
  iEmpty :: bool
  iMissing :: bool

record PendingGlyph =
  pgCodePoint :: nat
  pgGenSize :: "nat option"
  pgFontBuffer :: "byte list"
  pgVariationAxes :: "VariationAxis list option"
  pgVariantId :: string

text \<open>
  The state of a \<^verbatim>\<open>FontAtlas\<close>: the generator's behaviour and its state (loaded font,
  axes), the texture factory's state, the configuration, the variant atlases by key,
  whether a callback was given and how often it has been invoked, the FIFO, and whether a
  drain is outstanding (\<^verbatim>\<open>batchPromise !== null\<close>).
\<close>

record FontAtlas =
  msdf :: MSDFGenerator
  msdfFont :: "byte list option"
  msdfAxes :: "VariationAxis list"
  textureCount :: nat
  config :: AtlasConfig
  atlases :: "string \<rightharpoonup> VariantAtlas"
  onGlyphsReady :: bool
  readyCalls :: nat
  faPendingGlyphs :: "PendingGlyph list"
  batchPromise :: bool

definition newFontAtlas :: "MSDFGenerator \<Rightarrow> bool \<Rightarrow> AtlasConfig \<Rightarrow> FontAtlas" where
  "newFontAtlas gen cb cfg =
     \<lparr>msdf = gen, msdfFont = None, msdfAxes = [], textureCount = 0, config = cfg,
      atlases = Map.empty, onGlyphsReady = cb, readyCalls = 0, faPendingGlyphs = [],
      batchPromise = False\<rparr>"

definition nthOpt :: "'a list \<Rightarrow> nat \<Rightarrow> 'a option" where
  "nthOpt xs i = (if i < length xs then Some (xs ! i) else None)"

fun scanThresholds :: "real \<Rightarrow> real list \<Rightarrow> nat \<Rightarrow> nat option" where
  "scanThresholds rs [] i = None"
| "scanThresholds rs (th # ths) i = (if rs \<le> th then Some i else scanThresholds rs ths (Suc i))"

definition selectGenSize :: "AtlasConfig \<Rightarrow> real \<Rightarrow> nat option" where
  "selectGenSize cfg rs =
     (case scanThresholds rs (sizeThresholds cfg) 0 of
        Some i \<Rightarrow> nthOpt (genSizes cfg) i
      | None \<Rightarrow> (if genSizes cfg = [] then None else Some (last (genSizes cfg))))"

text \<open>The decimal digits of a number, as the template string prints it.\<close>

fun decimal :: "nat \<Rightarrow> string" where
  "decimal n =
     (if n < 10 then [char_of (48 + n)] else decimal (n div 10) @ [char_of (48 + n mod 10)])"

declare decimal.simps [simp del]

definition atlasKey :: "string \<Rightarrow> nat option \<Rightarrow> string" where
  "atlasKey vid gs =
     vid @ ''_'' @ (case gs of None \<Rightarrow> ''undefined'' | Some g \<Rightarrow> decimal g)"

text \<open>
  \<^verbatim>\<open>getOrCreateAtlas\<close> answers the atlas object held under the key; the model returns the
  key and the atlas's value, and the caller stores the atlas back under the key after
  changing it.
\<close>

definition getOrCreateAtlas ::
  "string \<Rightarrow> nat option \<Rightarrow> FontAtlas \<Rightarrow> string \<times> VariantAtlas \<times> FontAtlas" where
  "getOrCreateAtlas vid gs fa =
     (let key = atlasKey vid gs
      in case atlases fa key of
           Some atlas \<Rightarrow> (key, atlas, fa)
         | None \<Rightarrow>
             (let atlas = newVariantAtlas vid gs (cfgPageSize (config fa))
                            (cfgMaxMixedPages (config fa))
              in (key, atlas, fa\<lparr>atlases := (atlases fa)(key \<mapsto> atlas)\<rparr>)))"

definition putAtlas :: "string \<Rightarrow> VariantAtlas \<Rightarrow> nat \<Rightarrow> FontAtlas \<Rightarrow> FontAtlas" where
  "putAtlas key atlas n fa = fa\<lparr>textureCount := n, atlases := (atlases fa)(key \<mapsto> atlas)\<rparr>"

text \<open>Division of two non-negative integers as the source's numbers divide.\<close>

definition jsDiv :: "nat \<Rightarrow> nat \<Rightarrow> real option" where
  "jsDiv a b = (if b = 0 then None else Some (real a / real b))"

definition locationToInfo :: "GlyphLocation \<Rightarrow> nat option \<Rightarrow> bool \<Rightarrow> GlyphInfo" where
  "locationToInfo location gs c =
     (let page = locPage location
      in \<lparr>iTexture = pTexture page,
          uvs = \<lparr>u0 = jsDiv (locX location) (pWidth page),
                 v0 = jsDiv (locY location) (pHeight page),
                 u1 = jsDiv (locX location + locWidth location) (pWidth page),
                 v1 = jsDiv (locY location + locHeight location) (pHeight page)\<rparr>,
          iMetrics = locMetrics location,
          iGenSize = gs,
          cached = c,
          iEmpty = locEmpty location,
          iMissing = locMissing location\<rparr>)"

definition queueGeneration :: "PendingGlyph \<Rightarrow> FontAtlas \<Rightarrow> FontAtlas" where
  "queueGeneration pending fa =
     (let fa1 = fa\<lparr>faPendingGlyphs := faPendingGlyphs fa @ [pending]\<rparr>
      in if \<not> batchPromise fa1 then fa1\<lparr>batchPromise := True\<rparr> else fa1)"

definition getGlyph :: "GlyphRequest \<Rightarrow> FontAtlas \<Rightarrow> GlyphInfo \<times> FontAtlas" where
  "getGlyph request fa =
     (let gs = selectGenSize (config fa) (renderSize request);
          (key, atlas, fa1) = getOrCreateAtlas (reqVariantId request) gs fa
      in case va_getGlyph atlas (codePoint request) of
           Some location \<Rightarrow> (locationToInfo location gs True, fa1)
         | None \<Rightarrow>
             (let (placeholder, n, atlas') =
                    reserveGlyph (codePoint request) (textureCount fa1) atlas;
                  fa2 = putAtlas key atlas' n fa1;
                  fa3 = queueGeneration
                          \<lparr>pgCodePoint = codePoint request, pgGenSize = gs,
                           pgFontBuffer = fontBuffer request,
                           pgVariationAxes = variationAxes request,
                           pgVariantId = reqVariantId request\<rparr> fa2
              in (locationToInfo placeholder gs False, fa3)))"

definition generateGlyph ::
  "nat \<Rightarrow> nat option \<Rightarrow> byte list \<Rightarrow> VariationAxis list option \<Rightarrow> FontAtlas \<Rightarrow>
     MSDFGlyph option \<times> FontAtlas" where
  "generateGlyph cp fontSize fb axes fa =
     (let fa1 = fa\<lparr>msdfFont := Some fb\<rparr>
      in case axes of
           Some (a # as) \<Rightarrow>
             (let fa2 = fa1\<lparr>msdfAxes := a # as\<rparr>
              in (generateMTSDFVar (msdf fa2) (msdfFont fa2) (msdfAxes fa2) cp fontSize
                    (pixelRange (config fa2)), fa2))
         | _ \<Rightarrow>
             (let fa2 = fa1\<lparr>msdfAxes := []\<rparr>
              in (generateMTSDF (msdf fa2) (msdfFont fa2) cp fontSize
                    (pixelRange (config fa2)), fa2)))"

text \<open>
  \<^verbatim>\<open>floatToRGBA\<close>. A pixel read past the end is \<^verbatim>\<open>undefined\<close>, the arithmetic on it
  NaN, and the byte stored 0. \<open>channels === 4\<close> holds when the length is four times a
  non-zero \<open>width * height\<close>.
\<close>

definition toByte :: "real list \<Rightarrow> nat \<Rightarrow> byte" where
  "toByte pixels i =
     (if i < length pixels
      then word_of_int (max 0 (min 255 (round (pixels ! i * 255))))
      else 0)"

definition floatToRGBA :: "real list \<Rightarrow> nat \<Rightarrow> nat \<Rightarrow> byte list" where
  "floatToRGBA pixels w h =
     (let four = (w * h \<noteq> 0 \<and> length pixels = 4 * (w * h))
      in fold (\<lambda>i rgba.
                 if four then
                   u8set (u8set (u8set (u8set rgba (i * 4 + 0) (toByte pixels (i * 4 + 0)))
                     (i * 4 + 1) (toByte pixels (i * 4 + 1)))
                     (i * 4 + 2) (toByte pixels (i * 4 + 2)))
                     (i * 4 + 3) (toByte pixels (i * 4 + 3))
                 else
                   u8set (u8set (u8set (u8set rgba (i * 4 + 0) (toByte pixels (i * 3 + 0)))
                     (i * 4 + 1) (toByte pixels (i * 3 + 1)))
                     (i * 4 + 2) (toByte pixels (i * 3 + 2)))
                     (i * 4 + 3) 255)
              [0..<w * h] (replicate (w * h * 4) 0))"

definition toMetrics :: "MSDFMetrics \<Rightarrow> GlyphMetrics" where
  "toMetrics m =
     \<lparr>mWidth = msWidth m, mHeight = msHeight m, advance = msAdvance m,
      xOffset = pbL (msPlaneBounds m), yOffset = pbB (msPlaneBounds m),
      planeBounds = msPlaneBounds m\<rparr>"

text \<open>One iteration of the drain's loop over the batch.\<close>

definition processPending :: "PendingGlyph \<Rightarrow> FontAtlas \<Rightarrow> error option \<times> FontAtlas" where
  "processPending pending fa =
     (let (key, atlas, fa1) = getOrCreateAtlas (pgVariantId pending) (pgGenSize pending) fa;
          fa2 = fa1\<lparr>msdfFont := Some (pgFontBuffer pending)\<rparr>
      in if \<not> hasGlyph (msdf fa2) (msdfFont fa2) (pgCodePoint pending)
         then (None, putAtlas key (markEmpty (pgCodePoint pending) True atlas)
                       (textureCount fa2) fa2)
         else
           (let (glyph, fa3) = generateGlyph (pgCodePoint pending) (pgGenSize pending)
                                 (pgFontBuffer pending) (pgVariationAxes pending) fa2
            in case glyph of
                 Some g \<Rightarrow>
                   (let rgbaPixels = floatToRGBA (gPixels g) (msWidth (gMetrics g))
                                       (msHeight (gMetrics g));
                        metrics = toMetrics (gMetrics g);
                        (err, n, atlas') = fillGlyph (pgCodePoint pending) rgbaPixels metrics
                                             (textureCount fa3) atlas
                    in (err, putAtlas key atlas' n fa3))
               | None \<Rightarrow>
                   (None, putAtlas key (markEmpty (pgCodePoint pending) False atlas)
                            (textureCount fa3) fa3)))"

text \<open>The loop over the batch; a \<^verbatim>\<open>throw\<close> leaves the rest of the batch unprocessed.\<close>

fun processAll :: "PendingGlyph list \<Rightarrow> FontAtlas \<Rightarrow> error option \<times> FontAtlas" where
  "processAll [] fa = (None, fa)"
| "processAll (pending # rest) fa =
     (case processPending pending fa of
        (Some e, fa') \<Rightarrow> (Some e, fa')
      | (None, fa') \<Rightarrow> processAll rest fa')"

definition flushAll :: "FontAtlas \<Rightarrow> FontAtlas" where
  "flushAll fa = fa\<lparr>atlases := (\<lambda>key. map_option flushDirtyPages (atlases fa key))\<rparr>"

definition notify :: "FontAtlas \<Rightarrow> FontAtlas" where
  "notify fa = (if onGlyphsReady fa then fa\<lparr>readyCalls := Suc (readyCalls fa)\<rparr> else fa)"

text \<open>
  \<^verbatim>\<open>processBatch\<close>, the drain that the queued microtask runs. An error is the rejection
  of its promise.
\<close>

definition processBatch :: "FontAtlas \<Rightarrow> error option \<times> FontAtlas" where
  "processBatch fa =
     (let batch = faPendingGlyphs fa;
          fa1 = fa\<lparr>faPendingGlyphs := [], batchPromise := False\<rparr>
      in if batch = [] then (None, fa1)
         else
           (case processAll batch fa1 of
              (Some e, fa2) \<Rightarrow> (Some e, fa2)
            | (None, fa2) \<Rightarrow> (None, notify (flushAll fa2))))"

text \<open>
  One iteration of the loop of \<^verbatim>\<open>prefabLatin\<close>, on the atlas object fetched before the
  loop. \<^verbatim>\<open>hasGlyph\<close> is asked of whatever font the generator holds at that moment.
\<close>

definition prefabStep ::
  "nat option \<Rightarrow> byte list \<Rightarrow> VariationAxis list option \<Rightarrow> nat \<Rightarrow>
     FontAtlas \<times> VariantAtlas \<Rightarrow> error option \<times> FontAtlas \<times> VariantAtlas" where
  "prefabStep gs fb axes cp st =
     (let (fa, atlas) = st
      in if va_getGlyph atlas cp \<noteq> None then (None, fa, atlas)
         else if \<not> hasGlyph (msdf fa) (msdfFont fa) cp then
           (let (loc, n, atlas1) = reserveGlyph cp (textureCount fa) atlas
            in (None, fa\<lparr>textureCount := n\<rparr>, markEmpty cp True atlas1))
         else
           (let (glyph, fa1) = generateGlyph cp gs fb axes fa
            in case glyph of
                 Some g \<Rightarrow>
                   (let rgbaPixels = floatToRGBA (gPixels g) (msWidth (gMetrics g))
                                       (msHeight (gMetrics g));
                        metrics = toMetrics (gMetrics g);
                        (res, n, atlas1) = addGlyph cp rgbaPixels metrics (textureCount fa1) atlas
                    in (case res of Inl e \<Rightarrow> Some e | Inr loc \<Rightarrow> None,
                        fa1\<lparr>textureCount := n\<rparr>, atlas1))
               | None \<Rightarrow>
                   (let (loc, n, atlas1) = reserveGlyph cp (textureCount fa1) atlas
                    in (None, fa1\<lparr>textureCount := n\<rparr>, markEmpty cp False atlas1))))"

fun prefabLoop ::
  "nat option \<Rightarrow> byte list \<Rightarrow> VariationAxis list option \<Rightarrow> nat list \<Rightarrow>
     FontAtlas \<times> VariantAtlas \<Rightarrow> error option \<times> FontAtlas \<times> VariantAtlas" where
  "prefabLoop gs fb axes [] st = (None, st)"
| "prefabLoop gs fb axes (cp # cps) st =
     (case prefabStep gs fb axes cp st of
        (Some e, st') \<Rightarrow> (Some e, st')
      | (None, st') \<Rightarrow> prefabLoop gs fb axes cps st')"

definition prefabLatin ::
  "string \<Rightarrow> real \<Rightarrow> byte list \<Rightarrow> VariationAxis list option \<Rightarrow> FontAtlas \<Rightarrow>
     error option \<times> FontAtlas" where
  "prefabLatin vid fontSize fb axes fa =
     (let gs = selectGenSize (config fa) fontSize;
          (key, atlas, fa1) = getOrCreateAtlas vid gs fa
      in case prefabLoop gs fb axes LATIN_CODEPOINTS (fa1, atlas) of
           (Some e, fa2, atlas') \<Rightarrow> (Some e, fa2\<lparr>atlases := (atlases fa2)(key \<mapsto> atlas')\<rparr>)
         | (None, fa2, atlas') \<Rightarrow>
             (None, fa2\<lparr>atlases := (atlases fa2)(key \<mapsto> flushDirtyPages atlas')\<rparr>))"

definition hasPendingWork :: "FontAtlas \<Rightarrow> bool" where
  "hasPendingWork fa = (faPendingGlyphs fa \<noteq> [] \<or> batchPromise fa)"


section \<open>Auxiliary definitions for the proofs\<close>

text \<open>
  The operations of a variant atlas that a client of the class can issue between a
  reservation and the fill (everything but \<^verbatim>\<open>destroy\<close>, the teardown). A run ignores
  what an operation answers, a \<^verbatim>\<open>throw\<close> included: the caller may catch it and go on.
\<close>

datatype vaOp =
    OpReserve nat
  | OpFill nat "byte list" GlyphMetrics
  | OpAdd nat "byte list" GlyphMetrics
  | OpMarkEmpty nat bool
  | OpFlush

fun applyOp :: "vaOp \<Rightarrow> nat \<times> VariantAtlas \<Rightarrow> nat \<times> VariantAtlas" where
  "applyOp (OpReserve cp) (n, va) = snd (reserveGlyph cp n va)"
| "applyOp (OpFill cp pixels metrics) (n, va) = snd (fillGlyph cp pixels metrics n va)"
| "applyOp (OpAdd cp pixels metrics) (n, va) = snd (addGlyph cp pixels metrics n va)"
| "applyOp (OpMarkEmpty cp missing) (n, va) = (n, markEmpty cp missing va)"
| "applyOp OpFlush (n, va) = (n, flushDirtyPages va)"

fun applyOps :: "vaOp list \<Rightarrow> nat \<times> VariantAtlas \<Rightarrow> nat \<times> VariantAtlas" where
  "applyOps [] st = st"
| "applyOps (opn # ops) st = applyOps ops (applyOp opn st)"

definition latinTexture :: "VariantAtlas \<Rightarrow> texture option" where
  "latinTexture va = map_option texture (latinPage va)"

text \<open>
  The retry of \<^verbatim>\<open>fillGlyph\<close> and of \<^verbatim>\<open>addGlyph\<close> on a fresh mixed page, written as
  one step: what the two functions do after a "no fit" for a non-Latin code point.
\<close>

definition retryFresh ::
  "nat \<Rightarrow> byte list \<Rightarrow> GlyphMetrics \<Rightarrow> nat \<Rightarrow> VariantAtlas \<Rightarrow> error option \<times> nat \<times> VariantAtlas" where
  "retryFresh cp pixels m n va =
     (let fresh = newPage (pageSize va) (pageSize va) n;
          placed = tryAdd fresh pixels (mWidth m) (mHeight m);
          va' = va\<lparr>mixedPages := mixedPages va @ [snd placed]\<rparr>
      in case fst placed of
           None \<Rightarrow> (Some FreshPageOverflow, Suc n, va')
         | Some np \<Rightarrow> (None, Suc n, updateGlyphLocation cp (snd placed) np m va'))"

definition retryFreshStore ::
  "nat \<Rightarrow> byte list \<Rightarrow> GlyphMetrics \<Rightarrow> nat \<Rightarrow> VariantAtlas \<Rightarrow>
     (error + GlyphLocation) \<times> nat \<times> VariantAtlas" where
  "retryFreshStore cp pixels m n va =
     (let fresh = newPage (pageSize va) (pageSize va) n;
          placed = tryAdd fresh pixels (mWidth m) (mHeight m);
          va' = va\<lparr>mixedPages := mixedPages va @ [snd placed]\<rparr>
      in case fst placed of
           None \<Rightarrow> (Inl FreshPageOverflow, Suc n, va')
         | Some np \<Rightarrow>
             (Inr (fst (storeGlyph cp (snd placed) np m va')), Suc n,
              snd (storeGlyph cp (snd placed) np m va')))"

text \<open>
  Well-formed states: the configured page size is positive (as the configuration
  requires) and so is the size of every page of every atlas. Every operation of the
  \<^verbatim>\<open>FontAtlas\<close> keeps this (lemmas \<open>fa_ok_*\<close>).
\<close>

definition va_ok :: "VariantAtlas \<Rightarrow> bool" where
  "va_ok va =
     (0 < pageSize va \<and>
      (case latinPage va of None \<Rightarrow> True | Some p \<Rightarrow> 0 < width p \<and> 0 < height p) \<and>
      list_all (\<lambda>p. 0 < width p \<and> 0 < height p) (mixedPages va))"

definition fa_ok :: "FontAtlas \<Rightarrow> bool" where
  "fa_ok fa =
     (0 < cfgPageSize (config fa) \<and> (\<forall>key va. atlases fa key = Some va \<longrightarrow> va_ok va))"

text \<open>
  Two states of a \<^verbatim>\<open>FontAtlas\<close> agree on the scheduler (FIFO, outstanding drain), on the
  callback and its count, on the configuration and on the generator's behaviour.
\<close>

definition sameSched :: "FontAtlas \<Rightarrow> FontAtlas \<Rightarrow> bool" where
  "sameSched fa fa' =
     (readyCalls fa' = readyCalls fa \<and> onGlyphsReady fa' = onGlyphsReady fa \<and>
      faPendingGlyphs fa' = faPendingGlyphs fa \<and> batchPromise fa' = batchPromise fa \<and>
      config fa' = config fa \<and> msdf fa' = msdf fa)"

text \<open>
  The Location of a code point in the atlas held under a key, and whether the code point
  is pending there.
\<close>

definition entryKey :: "PendingGlyph \<Rightarrow> string" where
  "entryKey p = atlasKey (pgVariantId p) (pgGenSize p)"

definition locAt :: "FontAtlas \<Rightarrow> string \<Rightarrow> nat \<Rightarrow> GlyphLocation option" where
  "locAt fa key cp = (case atlases fa key of None \<Rightarrow> None | Some va \<Rightarrow> glyphIndex va cp)"

definition pendingAt :: "FontAtlas \<Rightarrow> string \<Rightarrow> nat \<Rightarrow> bool" where
  "pendingAt fa key cp = (case atlases fa key of None \<Rightarrow> False | Some va \<Rightarrow> cp \<in> pendingGlyphs va)"

text \<open>What \<^verbatim>\<open>markEmpty(cp, true)\<close> makes of a Location.\<close>

definition asMissing :: "GlyphLocation \<Rightarrow> GlyphLocation" where
  "asMissing l = l\<lparr>locEmpty := True, locMissing := True, locWidth := 0, locHeight := 0\<rparr>"

text \<open>The offset in the buffer at which \<^verbatim>\<open>tryAdd\<close> writes a source row.\<close>

definition dstOffset :: "nat \<Rightarrow> nat \<Rightarrow> nat \<Rightarrow> nat \<Rightarrow> nat \<Rightarrow> nat" where
  "dstOffset h pw x y row = ((y + (h - 1 - row)) * pw + x) * 4"

text \<open>The blit after its first \<open>k\<close> rows.\<close>

definition blitRows ::
  "byte list \<Rightarrow> nat \<Rightarrow> nat \<Rightarrow> nat \<Rightarrow> nat \<Rightarrow> nat \<Rightarrow> nat \<Rightarrow> byte list \<Rightarrow> byte list" where
  "blitRows pixels w h pw x y k buf =
     fold (\<lambda>row b. copyRow pixels (row * w * 4) (dstOffset h pw x y row) (w * 4) b) [0..<k] buf"

text \<open>
  Invariants of a variant atlas: every page has the configured size, and every recorded
  rectangle lies within its page. An operation fits when the glyph it places is not wider
  than a page.
\<close>

definition va_sized :: "VariantAtlas \<Rightarrow> bool" where
  "va_sized va =
     ((case latinPage va of None \<Rightarrow> True
       | Some p \<Rightarrow> width p = pageSize va \<and> height p = pageSize va) \<and>
      list_all (\<lambda>p. width p = pageSize va \<and> height p = pageSize va) (mixedPages va))"

definition rectInside :: "GlyphLocation \<Rightarrow> bool" where
  "rectInside l =
     (locX l + locWidth l \<le> pWidth (locPage l) \<and> locY l + locHeight l \<le> pHeight (locPage l))"

definition allInside :: "VariantAtlas \<Rightarrow> bool" where
  "allInside va = (\<forall>cp l. glyphIndex va cp = Some l \<longrightarrow> rectInside l)"

fun opFits :: "nat \<Rightarrow> vaOp \<Rightarrow> bool" where
  "opFits ps (OpFill cp pixels metrics) = (mWidth metrics \<le> ps)"
| "opFits ps (OpAdd cp pixels metrics) = (mWidth metrics \<le> ps)"
| "opFits ps opn = True"

section \<open>Concrete inputs\<close>

text \<open>A generator whose font has no glyph at all.\<close>

definition emptyFont :: MSDFGenerator where
  "emptyFont =
     \<lparr>hasGlyph = (\<lambda>font cp. False),
      generateMTSDF = (\<lambda>font cp gs pr. None),
      generateMTSDFVar = (\<lambda>font axes cp gs pr. None)\<rparr>"

definition requestFor :: "nat \<Rightarrow> GlyphRequest" where
  "requestFor cp =
     \<lparr>codePoint = cp, reqVariantId = ''v'', fontBuffer = [], variationAxes = None,
      renderSize = 32\<rparr>"

text \<open>A new \<^verbatim>\<open>FontAtlas\<close> after one \<^verbatim>\<open>getGlyph\<close> for \<open>A\<close>, which misses.\<close>

definition firstMiss :: FontAtlas where
  "firstMiss = snd (getGlyph (requestFor 65) (newFontAtlas emptyFont True DEFAULT_CONFIG))"

definition boxMetrics :: "nat \<Rightarrow> nat \<Rightarrow> GlyphMetrics" where
  "boxMetrics w h = PLACEHOLDER_METRICS\<lparr>mWidth := w, mHeight := h\<rparr>"

text \<open>
  A variant atlas with pages of 3 by 3 pixels and generation size 1. Two non-Latin code
  points are reserved (both on the first mixed page, texture 0); the first is filled with
  a glyph 2 wide and 1 high, which takes the whole shelf; then the second is filled with
  a glyph of 1 by 1.
\<close>

definition cjkA :: "nat \<times> VariantAtlas" where
  "cjkA = applyOps [OpReserve 0x4E00] (0, newVariantAtlas ''cjk'' (Some 1) 3 8)"

definition cjkLocB :: GlyphLocation where
  "cjkLocB = fst (reserveGlyph 0x4E01 (fst cjkA) (snd cjkA))"

definition cjkFull :: "nat \<times> VariantAtlas" where
  "cjkFull = applyOps [OpFill 0x4E00 [255, 255, 255, 255, 255, 255, 255, 255] (boxMetrics 2 1)]
               (snd (reserveGlyph 0x4E01 (fst cjkA) (snd cjkA)))"

definition cjkFillB :: "error option \<times> nat \<times> VariantAtlas" where
  "cjkFillB = fillGlyph 0x4E01 [9, 9, 9, 9] (boxMetrics 1 1) (fst cjkFull) (snd cjkFull)"

text \<open>The same small atlas with two Latin code points reserved.\<close>

definition latinVa :: VariantAtlas where
  "latinVa = newVariantAtlas ''latin'' (Some 1) 3 8"

definition latinTwo :: "nat \<times> VariantAtlas" where
  "latinTwo = applyOps [OpReserve 66] (snd (reserveGlyph 65 0 latinVa))"

text \<open>An atlas whose pages are a single pixel: no glyph fits.\<close>

definition tinyVa :: VariantAtlas where
  "tinyVa = newVariantAtlas ''tiny'' (Some 1) 1 8"

text \<open>
  A generator whose font covers the Basic Multilingual Plane: every glyph is a single
  pixel, except the space, which has no outline.
\<close>

definition dotGlyph :: MSDFGlyph where
  "dotGlyph =
     \<lparr>gMetrics = \<lparr>msWidth = 1, msHeight = 1, msAdvance = 1,
                   msPlaneBounds = \<lparr>pbL = 0, pbB = 0, pbR = 1, pbT = 1\<rparr>\<rparr>,
      gPixels = [1, 0, 0, 1]\<rparr>"

definition dotFont :: MSDFGenerator where
  "dotFont =
     \<lparr>hasGlyph = (\<lambda>font cp. cp < 0x10000),
      generateMTSDF = (\<lambda>font cp gs pr. if cp = 0x20 then None else Some dotGlyph),
      generateMTSDFVar = (\<lambda>font axes cp gs pr. if cp = 0x20 then None else Some dotGlyph)\<rparr>"

text \<open>The FIFO entry that a miss for \<open>A\<close> enqueues.\<close>

definition pendingA :: PendingGlyph where
  "pendingA = \<lparr>pgCodePoint = 65, pgGenSize = Some 32, pgFontBuffer = [],
                pgVariationAxes = None, pgVariantId = ''v''\<rparr>"

text \<open>
  A \<^verbatim>\<open>FontAtlas\<close> with a callback and pages of a single pixel, after one miss for
  \<open>A\<close>; and one with pages of 3 by 3 pixels, after one miss for \<open>A\<close>.
\<close>

definition tinyMiss :: FontAtlas where
  "tinyMiss =
     snd (getGlyph (requestFor 65) (newFontAtlas dotFont True (DEFAULT_CONFIG\<lparr>cfgPageSize := 1\<rparr>)))"

definition smallMiss :: FontAtlas where
  "smallMiss =
     snd (getGlyph (requestFor 65) (newFontAtlas dotFont True (DEFAULT_CONFIG\<lparr>cfgPageSize := 3\<rparr>)))"

text \<open>
  A \<^verbatim>\<open>FontAtlas\<close> with the single-pixel font after one miss for U+1F600, which the font
  does not contain; the FIFO entry of that miss; and the Location reserved for it.
\<close>

definition emojiMiss :: FontAtlas where
  "emojiMiss =
     snd (getGlyph (requestFor 0x1F600)
            (newFontAtlas dotFont True (DEFAULT_CONFIG\<lparr>cfgPageSize := 3\<rparr>)))"

definition pendingEmoji :: PendingGlyph where
  "pendingEmoji = \<lparr>pgCodePoint = 0x1F600, pgGenSize = Some 32, pgFontBuffer = [],
                    pgVariationAxes = None, pgVariantId = ''v''\<rparr>"

definition reservedEmoji :: GlyphLocation where
  "reservedEmoji =
     \<lparr>locPage = \<lparr>pTexture = 0, pWidth = 3, pHeight = 3\<rparr>, locX = 0, locY = 0, locWidth = 0,
      locHeight = 0, locMetrics = PLACEHOLDER_METRICS, locEmpty = False, locMissing = False\<rparr>"

text \<open>
  Two requests on pages of a single pixel, where no glyph fits: \<open>A\<close> and then U+1F600,
  and the same two the other way round.
\<close>

definition tinyTwo :: FontAtlas where
  "tinyTwo = snd (getGlyph (requestFor 0x1F600) tinyMiss)"

definition tinyRev :: FontAtlas where
  "tinyRev =
     snd (getGlyph (requestFor 65)
            (snd (getGlyph (requestFor 0x1F600)
                    (newFontAtlas dotFont True (DEFAULT_CONFIG\<lparr>cfgPageSize := 1\<rparr>)))))"

text \<open>
  Glyphs wider than the page: 5 by 1 on a page of 4 by 4 (through the atlas), and 3 by 2
  on a page 2 wide and 4 high, with the bytes 1 to 24 as its pixels.
\<close>

definition wideRun :: "nat \<times> VariantAtlas" where
  "wideRun =
     applyOps [OpReserve 0x4E00, OpFill 0x4E00 (replicate 20 255) (boxMetrics 5 1)]
       (0, newVariantAtlas ''wide'' (Some 1) 4 8)"

definition widePixels :: "byte list" where
  "widePixels = [1, 2, 3, 4, 5, 6, 7, 8, 9, 10, 11, 12, 13, 14, 15, 16, 17, 18, 19, 20, 21, 22,
                 23, 24]"

section \<open>Byte arrays and the blit\<close>

lemma copyRow_Suc:
  "copyRow pixels src dst (Suc n) buf =
     u8set (copyRow pixels src dst n buf) (dst + n) (u8get pixels (src + n))"
  by (simp add: copyRow_def)

lemma length_u8set [simp]: "length (u8set a i v) = length a"
  by (simp add: u8set_def)

lemma length_copyRow [simp]: "length (copyRow pixels src dst n buf) = length buf"
  by (induction n) (simp_all add: copyRow_Suc, simp add: copyRow_def)

lemma nth_u8set: "i < length a \<Longrightarrow> u8set a j v ! i = (if i = j then v else a ! i)"
  by (simp add: u8set_def)

lemma copyRow_nth:
  "i < length buf \<Longrightarrow>
     copyRow pixels src dst n buf ! i =
       (if dst \<le> i \<and> i < dst + n then u8get pixels (src + (i - dst)) else buf ! i)"
proof (induction n)
  case 0
  then show ?case by (auto simp: copyRow_def)
next
  case (Suc n)
  then show ?case
    by (auto simp: copyRow_Suc nth_u8set)
qed

lemma copyRow_eq:
  assumes "dst + n \<le> length buf" and "src + n \<le> length pixels"
  shows "copyRow pixels src dst n buf = take dst buf @ take n (drop src pixels) @ drop (dst + n) buf"
proof (rule nth_equalityI)
  show "length (copyRow pixels src dst n buf)
          = length (take dst buf @ take n (drop src pixels) @ drop (dst + n) buf)"
    using assms by simp
next
  fix i assume "i < length (copyRow pixels src dst n buf)"
  then have i: "i < length buf" by simp
  show "copyRow pixels src dst n buf ! i
          = (take dst buf @ take n (drop src pixels) @ drop (dst + n) buf) ! i"
    using assms i by (auto simp: copyRow_nth nth_append u8get_def)
qed

lemma blit_one_row:
  "blit pixels w (Suc 0) pw x y buf = copyRow pixels 0 ((y * pw + x) * 4) (w * 4) buf"
  by (simp add: blit_def)

section \<open>Frame lemmas for the variant atlas\<close>

lemma tryAdd_frame:
  "tryAdd p pixels w h = (res, p') \<Longrightarrow>
     texture p' = texture p \<and> width p' = width p \<and> height p' = height p"
  by (auto simp: tryAdd_def advanceShelf_def Let_def split: if_splits)

lemma getOrCreatePage_latin:
  "getOrCreatePage True gh n va = (sel, page, n1, va1) \<Longrightarrow>
     sel = LatinSel \<and> latinPage va1 = Some page \<and> mixedPages va1 = mixedPages va \<and>
     glyphIndex va1 = glyphIndex va \<and> pendingGlyphs va1 = pendingGlyphs va \<and>
     (latinPage va \<noteq> None \<longrightarrow> latinPage va = Some page \<and> n1 = n)"
  by (auto simp: getOrCreatePage_def Let_def split: option.splits)

lemma getOrCreatePage_mixed:
  "getOrCreatePage False gh n va = (sel, page, n1, va1) \<Longrightarrow>
     (\<exists>i. sel = MixedSel i) \<and> latinPage va1 = latinPage va \<and>
     glyphIndex va1 = glyphIndex va \<and> pendingGlyphs va1 = pendingGlyphs va"
  by (auto simp: getOrCreatePage_def createMixedPage_def Let_def split: option.splits)

lemma updateGlyphLocation_frame:
  "latinPage (updateGlyphLocation cp page pos m va) = latinPage va \<and>
   mixedPages (updateGlyphLocation cp page pos m va) = mixedPages va \<and>
   dom (glyphIndex (updateGlyphLocation cp page pos m va)) = dom (glyphIndex va)"
  by (auto simp: updateGlyphLocation_def Let_def split: option.splits)

lemma reserveGlyph_stable:
  assumes "reserveGlyph cp n va = (loc, n1, va1)" and "latinTexture va = Some tx"
  shows "latinTexture va1 = Some tx"
proof (cases "isLatinChar cp")
  case True
  obtain sel page k va' where g: "getOrCreatePage True (genSize va) n va = (sel, page, k, va')"
    by (cases "getOrCreatePage True (genSize va) n va") auto
  from getOrCreatePage_latin [OF g] assms True g show ?thesis
    by (auto simp: reserveGlyph_def Let_def latinTexture_def)
next
  case False
  obtain sel page k va' where g: "getOrCreatePage False (genSize va) n va = (sel, page, k, va')"
    by (cases "getOrCreatePage False (genSize va) n va") auto
  from getOrCreatePage_mixed [OF g] assms False g show ?thesis
    by (auto simp: reserveGlyph_def Let_def latinTexture_def)
qed

lemma reserveGlyph_dom:
  assumes "reserveGlyph cp n va = (loc, n1, va1)"
  shows "dom (glyphIndex va1) = insert cp (dom (glyphIndex va))"
proof -
  obtain sel page k va' where
    g: "getOrCreatePage (isLatinChar cp) (genSize va) n va = (sel, page, k, va')"
    by (cases "getOrCreatePage (isLatinChar cp) (genSize va) n va") auto
  have "glyphIndex va' = glyphIndex va"
    using g getOrCreatePage_latin [of "genSize va" n va sel page k va']
      getOrCreatePage_mixed [of "genSize va" n va sel page k va']
    by (cases "isLatinChar cp") auto
  with assms g show ?thesis by (auto simp: reserveGlyph_def Let_def)
qed

lemma setPage_simps [simp]:
  "latinPage (setPage LatinSel p va) = Some p"
  "mixedPages (setPage LatinSel p va) = mixedPages va"
  "latinPage (setPage (MixedSel i) p va) = latinPage va"
  "mixedPages (setPage (MixedSel i) p va) = (mixedPages va)[i := p]"
  "glyphIndex (setPage sel p va) = glyphIndex va"
  "pendingGlyphs (setPage sel p va) = pendingGlyphs va"
  "pageSize (setPage sel p va) = pageSize va"
  by (auto simp: setPage_def split: PageSel.splits)

lemma updateGlyphLocation_simps [simp]:
  "latinPage (updateGlyphLocation cp page pos m va) = latinPage va"
  "mixedPages (updateGlyphLocation cp page pos m va) = mixedPages va"
  "pageSize (updateGlyphLocation cp page pos m va) = pageSize va"
  "dom (glyphIndex (updateGlyphLocation cp page pos m va)) = dom (glyphIndex va)"
  "pendingGlyphs (updateGlyphLocation cp page pos m va) = pendingGlyphs va - {cp}"
  by (auto simp: updateGlyphLocation_def Let_def split: option.splits)

lemma storeGlyph_simps [simp]:
  "latinPage (snd (storeGlyph cp page pos m va)) = latinPage va"
  "mixedPages (snd (storeGlyph cp page pos m va)) = mixedPages va"
  "pageSize (snd (storeGlyph cp page pos m va)) = pageSize va"
  "dom (glyphIndex (snd (storeGlyph cp page pos m va))) = insert cp (dom (glyphIndex va))"
  "pendingGlyphs (snd (storeGlyph cp page pos m va)) = pendingGlyphs va - {cp}"
  by (auto simp: storeGlyph_def Let_def)

lemma markEmpty_simps [simp]:
  "latinPage (markEmpty cp mi va) = latinPage va"
  "mixedPages (markEmpty cp mi va) = mixedPages va"
  "pageSize (markEmpty cp mi va) = pageSize va"
  "dom (glyphIndex (markEmpty cp mi va)) = dom (glyphIndex va)"
  "pendingGlyphs (markEmpty cp mi va) = pendingGlyphs va - {cp}"
  by (auto simp: markEmpty_def Let_def split: option.splits)

lemma getOrCreatePage_frame:
  "getOrCreatePage isL gh n va = (sel, page, n1, va1) \<Longrightarrow>
     glyphIndex va1 = glyphIndex va \<and> pendingGlyphs va1 = pendingGlyphs va \<and>
     pageSize va1 = pageSize va"
  by (auto simp: getOrCreatePage_def createMixedPage_def Let_def split: if_splits option.splits)

lemma setPage_fresh:
  "setPage (MixedSel (length (mixedPages va))) p (va\<lparr>mixedPages := mixedPages va @ [q]\<rparr>)
     = va\<lparr>mixedPages := mixedPages va @ [p]\<rparr>"
  by (simp add: setPage_def)

lemma fillGlyph_unfold:
  assumes "getOrCreatePage (isLatinChar cp) (Some (mHeight m)) n va = (sel, page, n1, va1)"
    and "tryAdd page pixels (mWidth m) (mHeight m) = (pos, page')"
  shows "fillGlyph cp pixels m n va =
     (case pos of
        Some ps \<Rightarrow> (None, n1, updateGlyphLocation cp page' ps m (setPage sel page' va1))
      | None \<Rightarrow>
          if isLatinChar cp then (Some LatinPageFull, n1, setPage sel page' va1)
          else retryFresh cp pixels m n1 (setPage sel page' va1))"
  unfolding fillGlyph_def Let_def assms prod.case
  by (simp add: retryFresh_def createMixedPage_def Let_def setPage_fresh case_prod_beta
      split: option.splits)

lemma retryFresh_frame:
  assumes "retryFresh cp pixels m n va = (r, n', va')"
  shows "latinPage va' = latinPage va \<and> dom (glyphIndex va') = dom (glyphIndex va) \<and>
         n' = Suc n \<and> length (mixedPages va') = Suc (length (mixedPages va)) \<and>
         pageSize va' = pageSize va"
proof (cases "fst (tryAdd (newPage (pageSize va) (pageSize va) n) pixels (mWidth m) (mHeight m))")
  case None
  with assms have "va' = va\<lparr>mixedPages := mixedPages va @
        [snd (tryAdd (newPage (pageSize va) (pageSize va) n) pixels (mWidth m) (mHeight m))]\<rparr>"
    and "n' = Suc n"
    by (simp_all add: retryFresh_def Let_def)
  then show ?thesis by simp
next
  case (Some np)
  with assms have "va' = updateGlyphLocation cp
      (snd (tryAdd (newPage (pageSize va) (pageSize va) n) pixels (mWidth m) (mHeight m))) np m
      (va\<lparr>mixedPages := mixedPages va @
        [snd (tryAdd (newPage (pageSize va) (pageSize va) n) pixels (mWidth m) (mHeight m))]\<rparr>)"
    and "n' = Suc n"
    by (simp_all add: retryFresh_def Let_def)
  then show ?thesis by simp
qed

lemma fillGlyph_stable:
  assumes "fillGlyph cp pixels m n va = (r, n', va')" and "latinTexture va = Some tx"
  shows "latinTexture va' = Some tx"
proof -
  obtain sel page n1 va1 where
    g: "getOrCreatePage (isLatinChar cp) (Some (mHeight m)) n va = (sel, page, n1, va1)"
    by (cases "getOrCreatePage (isLatinChar cp) (Some (mHeight m)) n va") auto
  obtain pos page' where t: "tryAdd page pixels (mWidth m) (mHeight m) = (pos, page')"
    by (cases "tryAdd page pixels (mWidth m) (mHeight m)") auto
  note u = fillGlyph_unfold [OF g t]
  show ?thesis
  proof (cases "isLatinChar cp")
    case True
    with g have gl: "getOrCreatePage True (Some (mHeight m)) n va = (sel, page, n1, va1)" by simp
    from getOrCreatePage_latin [OF gl] tryAdd_frame [OF t] assms True u show ?thesis
      by (auto simp: latinTexture_def split: option.splits)
  next
    case False
    with g have gm: "getOrCreatePage False (Some (mHeight m)) n va = (sel, page, n1, va1)" by simp
    from getOrCreatePage_mixed [OF gm] assms False u show ?thesis
      by (auto simp: latinTexture_def split: option.splits dest!: retryFresh_frame)
  qed
qed

lemma fillGlyph_dom:
  assumes "fillGlyph cp pixels m n va = (r, n', va')"
  shows "dom (glyphIndex va') = dom (glyphIndex va)"
proof -
  obtain sel page n1 va1 where
    g: "getOrCreatePage (isLatinChar cp) (Some (mHeight m)) n va = (sel, page, n1, va1)"
    by (cases "getOrCreatePage (isLatinChar cp) (Some (mHeight m)) n va") auto
  obtain pos page' where t: "tryAdd page pixels (mWidth m) (mHeight m) = (pos, page')"
    by (cases "tryAdd page pixels (mWidth m) (mHeight m)") auto
  note u = fillGlyph_unfold [OF g t]
  from getOrCreatePage_frame [OF g] have gi: "glyphIndex va1 = glyphIndex va" by simp
  show ?thesis
  proof (cases pos)
    case (Some ps)
    with u assms gi show ?thesis by simp
  next
    case None
    show ?thesis
    proof (cases "isLatinChar cp")
      case True
      with None u assms gi show ?thesis by auto
    next
      case False
      with None u assms have "retryFresh cp pixels m n1 (setPage sel page' va1) = (r, n', va')"
        by simp
      from retryFresh_frame [OF this] gi show ?thesis by simp
    qed
  qed
qed

lemma addGlyph_unfold:
  assumes "getOrCreatePage (isLatinChar cp) (Some (mHeight m)) n va = (sel, page, n1, va1)"
    and "tryAdd page pixels (mWidth m) (mHeight m) = (pos, page')"
  shows "addGlyph cp pixels m n va =
     (case pos of
        Some ps \<Rightarrow>
          (Inr (fst (storeGlyph cp page' ps m (setPage sel page' va1))), n1,
           snd (storeGlyph cp page' ps m (setPage sel page' va1)))
      | None \<Rightarrow>
          if isLatinChar cp then (Inl LatinPageFull, n1, setPage sel page' va1)
          else retryFreshStore cp pixels m n1 (setPage sel page' va1))"
  unfolding addGlyph_def Let_def assms prod.case
  by (simp add: retryFreshStore_def createMixedPage_def Let_def setPage_fresh case_prod_beta
      split: option.splits)

lemma retryFreshStore_frame:
  assumes "retryFreshStore cp pixels m n va = (r, n', va')"
  shows "latinPage va' = latinPage va \<and> dom (glyphIndex va) \<subseteq> dom (glyphIndex va') \<and>
         n' = Suc n \<and> pageSize va' = pageSize va"
proof (cases "fst (tryAdd (newPage (pageSize va) (pageSize va) n) pixels (mWidth m) (mHeight m))")
  case None
  with assms have "va' = va\<lparr>mixedPages := mixedPages va @
        [snd (tryAdd (newPage (pageSize va) (pageSize va) n) pixels (mWidth m) (mHeight m))]\<rparr>"
    and "n' = Suc n"
    by (simp_all add: retryFreshStore_def Let_def)
  then show ?thesis by simp
next
  case (Some np)
  with assms have "va' = snd (storeGlyph cp
      (snd (tryAdd (newPage (pageSize va) (pageSize va) n) pixels (mWidth m) (mHeight m))) np m
      (va\<lparr>mixedPages := mixedPages va @
        [snd (tryAdd (newPage (pageSize va) (pageSize va) n) pixels (mWidth m) (mHeight m))]\<rparr>))"
    and "n' = Suc n"
    by (simp_all add: retryFreshStore_def Let_def)
  then show ?thesis by (simp add: subset_insertI)
qed

lemma addGlyph_stable:
  assumes "addGlyph cp pixels m n va = (r, n', va')" and "latinTexture va = Some tx"
  shows "latinTexture va' = Some tx"
proof -
  obtain sel page n1 va1 where
    g: "getOrCreatePage (isLatinChar cp) (Some (mHeight m)) n va = (sel, page, n1, va1)"
    by (cases "getOrCreatePage (isLatinChar cp) (Some (mHeight m)) n va") auto
  obtain pos page' where t: "tryAdd page pixels (mWidth m) (mHeight m) = (pos, page')"
    by (cases "tryAdd page pixels (mWidth m) (mHeight m)") auto
  note u = addGlyph_unfold [OF g t]
  show ?thesis
  proof (cases "isLatinChar cp")
    case True
    with g have gl: "getOrCreatePage True (Some (mHeight m)) n va = (sel, page, n1, va1)" by simp
    from getOrCreatePage_latin [OF gl] tryAdd_frame [OF t] assms True u show ?thesis
      by (auto simp: latinTexture_def split: option.splits)
  next
    case False
    with g have gm: "getOrCreatePage False (Some (mHeight m)) n va = (sel, page, n1, va1)" by simp
    from getOrCreatePage_mixed [OF gm] assms False u show ?thesis
      by (auto simp: latinTexture_def split: option.splits dest!: retryFreshStore_frame)
  qed
qed

lemma addGlyph_dom:
  assumes "addGlyph cp pixels m n va = (r, n', va')"
  shows "dom (glyphIndex va) \<subseteq> dom (glyphIndex va')"
proof -
  obtain sel page n1 va1 where
    g: "getOrCreatePage (isLatinChar cp) (Some (mHeight m)) n va = (sel, page, n1, va1)"
    by (cases "getOrCreatePage (isLatinChar cp) (Some (mHeight m)) n va") auto
  obtain pos page' where t: "tryAdd page pixels (mWidth m) (mHeight m) = (pos, page')"
    by (cases "tryAdd page pixels (mWidth m) (mHeight m)") auto
  note u = addGlyph_unfold [OF g t]
  from getOrCreatePage_frame [OF g] have gi: "glyphIndex va1 = glyphIndex va" by simp
  show ?thesis
  proof (cases pos)
    case (Some ps)
    with u assms have "va' = snd (storeGlyph cp page' ps m (setPage sel page' va1))" by simp
    with gi show ?thesis by (simp add: subset_insertI)
  next
    case None
    show ?thesis
    proof (cases "isLatinChar cp")
      case True
      with None u assms gi show ?thesis by auto
    next
      case False
      with None u assms have "retryFreshStore cp pixels m n1 (setPage sel page' va1) = (r, n', va')"
        by simp
      from retryFreshStore_frame [OF this] gi show ?thesis by simp
    qed
  qed
qed

lemma flush_frame [simp]: "texture (flush p) = texture p" "width (flush p) = width p"
  "height (flush p) = height p"
  by (simp_all add: flush_def)

lemma flushDirtyPages_simps [simp]:
  "latinTexture (flushDirtyPages va) = latinTexture va"
  "glyphIndex (flushDirtyPages va) = glyphIndex va"
  "pendingGlyphs (flushDirtyPages va) = pendingGlyphs va"
  by (cases "latinPage va"; simp add: flushDirtyPages_def latinTexture_def)+

lemma applyOp_stable:
  assumes "latinTexture (snd st) = Some tx"
  shows "latinTexture (snd (applyOp opn st)) = Some tx"
proof (cases st)
  case (Pair n va)
  with assms have lt: "latinTexture va = Some tx" by simp
  show ?thesis
  proof (cases opn)
    case (OpReserve cp)
    with Pair lt reserveGlyph_stable [of cp n va] show ?thesis
      by (cases "reserveGlyph cp n va") auto
  next
    case (OpFill cp px m)
    with Pair lt fillGlyph_stable [of cp px m n va] show ?thesis
      by (cases "fillGlyph cp px m n va") auto
  next
    case (OpAdd cp px m)
    with Pair lt addGlyph_stable [of cp px m n va] show ?thesis
      by (cases "addGlyph cp px m n va") auto
  next
    case (OpMarkEmpty cp mi)
    with Pair lt show ?thesis by (simp add: latinTexture_def)
  next
    case OpFlush
    with Pair lt show ?thesis by simp
  qed
qed

lemma applyOp_dom:
  assumes "cp \<in> dom (glyphIndex (snd st))"
  shows "cp \<in> dom (glyphIndex (snd (applyOp opn st)))"
proof (cases st)
  case (Pair n va)
  with assms have d: "cp \<in> dom (glyphIndex va)" by simp
  show ?thesis
  proof (cases opn)
    case (OpReserve c)
    with Pair d reserveGlyph_dom [of c n va] show ?thesis
      by (cases "reserveGlyph c n va") auto
  next
    case (OpFill c px m)
    with Pair d fillGlyph_dom [of c px m n va] show ?thesis
      by (cases "fillGlyph c px m n va") auto
  next
    case (OpAdd c px m)
    with Pair d addGlyph_dom [of c px m n va] show ?thesis
      by (cases "addGlyph c px m n va") auto
  next
    case (OpMarkEmpty c mi)
    with Pair d show ?thesis by (simp del: dom_def)
  next
    case OpFlush
    with Pair d show ?thesis by simp
  qed
qed

lemma applyOps_stable:
  "latinTexture (snd st) = Some tx \<Longrightarrow> cp \<in> dom (glyphIndex (snd st)) \<Longrightarrow>
     latinTexture (snd (applyOps ops st)) = Some tx \<and>
     cp \<in> dom (glyphIndex (snd (applyOps ops st)))"
proof (induction ops arbitrary: st)
  case Nil
  then show ?case by simp
next
  case (Cons opn ops)
  from Cons.IH [OF applyOp_stable [OF Cons.prems(1)] applyOp_dom [OF Cons.prems(2)]]
  show ?case by simp
qed

lemma reserveGlyph_latin:
  assumes "isLatinChar cp" and "reserveGlyph cp n va = (loc, n1, va1)"
  shows "latinTexture va1 = Some (pTexture (locPage loc)) \<and> cp \<in> dom (glyphIndex va1)"
proof -
  obtain sel page k va' where g: "getOrCreatePage True (genSize va) n va = (sel, page, k, va')"
    by (cases "getOrCreatePage True (genSize va) n va") auto
  from getOrCreatePage_latin [OF g] assms g show ?thesis
    by (auto simp: reserveGlyph_def Let_def latinTexture_def pageInfo_def)
qed


section \<open>What the drain and the prefab leave alone\<close>

lemma sameSched_refl [simp]: "sameSched fa fa"
  by (simp add: sameSched_def)

lemma sameSched_trans: "sameSched a b \<Longrightarrow> sameSched b c \<Longrightarrow> sameSched a c"
  by (simp add: sameSched_def)

lemma sameSched_upd [simp]:
  "sameSched fa (fa'\<lparr>atlases := m\<rparr>) = sameSched fa fa'"
  "sameSched fa (fa'\<lparr>textureCount := n\<rparr>) = sameSched fa fa'"
  "sameSched fa (fa'\<lparr>msdfFont := f\<rparr>) = sameSched fa fa'"
  "sameSched fa (fa'\<lparr>msdfAxes := ax\<rparr>) = sameSched fa fa'"
  "sameSched fa (putAtlas key va n fa') = sameSched fa fa'"
  by (simp_all add: sameSched_def putAtlas_def)

lemma getOrCreateAtlas_sched:
  "getOrCreateAtlas vid gs fa = (key, atlas, fa1) \<Longrightarrow> sameSched fa fa1"
  by (auto simp: getOrCreateAtlas_def Let_def split: option.splits)

lemma generateGlyph_sched:
  "generateGlyph cp gs fb axes fa = (g, fa1) \<Longrightarrow> sameSched fa fa1"
  by (auto simp: generateGlyph_def Let_def split: option.splits list.splits)

lemma processPending_sched:
  assumes "processPending p fa = (r, fa')"
  shows "sameSched fa fa'"
proof -
  obtain key atlas fa1 where
    g: "getOrCreateAtlas (pgVariantId p) (pgGenSize p) fa = (key, atlas, fa1)"
    by (cases "getOrCreateAtlas (pgVariantId p) (pgGenSize p) fa") auto
  let ?fa2 = "fa1\<lparr>msdfFont := Some (pgFontBuffer p)\<rparr>"
  obtain glyph fa3 where
    gg: "generateGlyph (pgCodePoint p) (pgGenSize p) (pgFontBuffer p) (pgVariationAxes p) ?fa2
           = (glyph, fa3)"
    by (cases "generateGlyph (pgCodePoint p) (pgGenSize p) (pgFontBuffer p)
                 (pgVariationAxes p) ?fa2") auto
  from getOrCreateAtlas_sched [OF g] have s1: "sameSched fa ?fa2" by simp
  from generateGlyph_sched [OF gg] s1 have s3: "sameSched fa fa3"
    by (rule sameSched_trans [rotated])
  from assms g gg s1 s3 show ?thesis
    by (auto simp: processPending_def Let_def split: if_splits option.splits prod.splits)
qed

lemma processAll_sched:
  "processAll batch fa = (r, fa') \<Longrightarrow> sameSched fa fa'"
proof (induction batch arbitrary: fa)
  case Nil
  then show ?case by simp
next
  case (Cons p rest)
  obtain r1 fa1 where p1: "processPending p fa = (r1, fa1)"
    by (cases "processPending p fa") auto
  from processPending_sched [OF p1] have s: "sameSched fa fa1" .
  show ?case
  proof (cases r1)
    case None
    with Cons.prems p1 have "processAll rest fa1 = (r, fa')" by simp
    from sameSched_trans [OF s Cons.IH [OF this]] show ?thesis .
  next
    case (Some e)
    with Cons.prems p1 s show ?thesis by simp
  qed
qed

lemma prefabStep_sched:
  assumes "prefabStep gs fb axes cp (fa, atlas) = (r, fa', atlas')"
  shows "sameSched fa fa'"
proof -
  obtain glyph fa1 where gg: "generateGlyph cp gs fb axes fa = (glyph, fa1)"
    by (cases "generateGlyph cp gs fb axes fa") auto
  from generateGlyph_sched [OF gg] have s1: "sameSched fa fa1" .
  from assms gg s1 show ?thesis
    by (auto simp: prefabStep_def Let_def split: if_splits option.splits prod.splits)
qed

lemma prefabLoop_sched:
  "prefabLoop gs fb axes cps (fa, atlas) = (r, fa', atlas') \<Longrightarrow> sameSched fa fa'"
proof (induction cps arbitrary: fa atlas)
  case Nil
  then show ?case by simp
next
  case (Cons cp cps)
  obtain r1 fa1 atlas1 where p1: "prefabStep gs fb axes cp (fa, atlas) = (r1, fa1, atlas1)"
    by (cases "prefabStep gs fb axes cp (fa, atlas)") auto
  from prefabStep_sched [OF p1] have s: "sameSched fa fa1" .
  show ?case
  proof (cases r1)
    case None
    with Cons.prems p1 have "prefabLoop gs fb axes cps (fa1, atlas1) = (r, fa', atlas')" by simp
    from sameSched_trans [OF s Cons.IH [OF this]] show ?thesis .
  next
    case (Some e)
    with Cons.prems p1 s show ?thesis by simp
  qed
qed

lemma prefabLatin_sched: "sameSched fa (snd (prefabLatin vid fontSize fb axes fa))"
proof -
  let ?gs = "selectGenSize (config fa) fontSize"
  obtain key atlas fa1 where g: "getOrCreateAtlas vid ?gs fa = (key, atlas, fa1)"
    by (cases "getOrCreateAtlas vid ?gs fa") auto
  obtain r fa2 atlas' where
    l: "prefabLoop ?gs fb axes LATIN_CODEPOINTS (fa1, atlas) = (r, fa2, atlas')"
    by (cases "prefabLoop ?gs fb axes LATIN_CODEPOINTS (fa1, atlas)") auto
  from sameSched_trans [OF getOrCreateAtlas_sched [OF g] prefabLoop_sched [OF l]]
  have "sameSched fa fa2" .
  with g l show ?thesis
    by (cases r) (simp_all add: prefabLatin_def Let_def)
qed

section \<open>What one entry of a drain does to the Location of a code point\<close>

lemma updateGlyphLocation_other:
  "cp \<noteq> cq \<Longrightarrow> glyphIndex (updateGlyphLocation cq page pos m va) cp = glyphIndex va cp"
  by (simp add: updateGlyphLocation_def Let_def split: option.splits)

lemma markEmpty_other:
  "cp \<noteq> cq \<Longrightarrow> glyphIndex (markEmpty cq mi va) cp = glyphIndex va cp"
  by (simp add: markEmpty_def Let_def split: option.splits)

lemma markEmpty_same:
  "glyphIndex (markEmpty cp True va) cp = map_option asMissing (glyphIndex va cp)"
  by (simp add: markEmpty_def asMissing_def Let_def split: option.splits)

lemma retryFresh_other:
  assumes "retryFresh cq pixels m n va = (r, n', va')" and "cp \<noteq> cq"
  shows "glyphIndex va' cp = glyphIndex va cp \<and>
         (cp \<in> pendingGlyphs va' \<longleftrightarrow> cp \<in> pendingGlyphs va)"
proof (cases "fst (tryAdd (newPage (pageSize va) (pageSize va) n) pixels (mWidth m) (mHeight m))")
  case None
  with assms have "va' = va\<lparr>mixedPages := mixedPages va @
        [snd (tryAdd (newPage (pageSize va) (pageSize va) n) pixels (mWidth m) (mHeight m))]\<rparr>"
    by (simp add: retryFresh_def Let_def)
  then show ?thesis by simp
next
  case (Some np)
  with assms have "va' = updateGlyphLocation cq
      (snd (tryAdd (newPage (pageSize va) (pageSize va) n) pixels (mWidth m) (mHeight m))) np m
      (va\<lparr>mixedPages := mixedPages va @
        [snd (tryAdd (newPage (pageSize va) (pageSize va) n) pixels (mWidth m) (mHeight m))]\<rparr>)"
    by (simp add: retryFresh_def Let_def)
  with assms(2) show ?thesis by (simp add: updateGlyphLocation_other)
qed

lemma fillGlyph_other:
  assumes "fillGlyph cq pixels m n va = (r, n', va')" and "cp \<noteq> cq"
  shows "glyphIndex va' cp = glyphIndex va cp \<and>
         (cp \<in> pendingGlyphs va' \<longleftrightarrow> cp \<in> pendingGlyphs va)"
proof -
  obtain sel page n1 va1 where
    g: "getOrCreatePage (isLatinChar cq) (Some (mHeight m)) n va = (sel, page, n1, va1)"
    by (cases "getOrCreatePage (isLatinChar cq) (Some (mHeight m)) n va") auto
  obtain pos page' where t: "tryAdd page pixels (mWidth m) (mHeight m) = (pos, page')"
    by (cases "tryAdd page pixels (mWidth m) (mHeight m)") auto
  note u = fillGlyph_unfold [OF g t]
  note fr = getOrCreatePage_frame [OF g]
  show ?thesis
  proof (cases pos)
    case (Some ps)
    with u assms(1) have "va' = updateGlyphLocation cq page' ps m (setPage sel page' va1)"
      by simp
    with fr assms(2) show ?thesis by (simp add: updateGlyphLocation_other)
  next
    case None
    show ?thesis
    proof (cases "isLatinChar cq")
      case True
      with None u assms(1) have "va' = setPage sel page' va1" by simp
      with fr show ?thesis by simp
    next
      case False
      with None u assms(1)
      have "retryFresh cq pixels m n1 (setPage sel page' va1) = (r, n', va')" by simp
      from retryFresh_other [OF this assms(2)] fr show ?thesis by simp
    qed
  qed
qed

lemma locAt_simps [simp]:
  "locAt (fa\<lparr>msdfFont := f\<rparr>) key cp = locAt fa key cp"
  "locAt (fa\<lparr>msdfAxes := ax\<rparr>) key cp = locAt fa key cp"
  "locAt (fa\<lparr>textureCount := n\<rparr>) key cp = locAt fa key cp"
  "locAt (fa\<lparr>faPendingGlyphs := q\<rparr>) key cp = locAt fa key cp"
  "locAt (fa\<lparr>batchPromise := b\<rparr>) key cp = locAt fa key cp"
  "locAt (fa\<lparr>readyCalls := k\<rparr>) key cp = locAt fa key cp"
  "pendingAt (fa\<lparr>msdfFont := f\<rparr>) key cp = pendingAt fa key cp"
  "pendingAt (fa\<lparr>msdfAxes := ax\<rparr>) key cp = pendingAt fa key cp"
  "pendingAt (fa\<lparr>textureCount := n\<rparr>) key cp = pendingAt fa key cp"
  "pendingAt (fa\<lparr>faPendingGlyphs := q\<rparr>) key cp = pendingAt fa key cp"
  "pendingAt (fa\<lparr>batchPromise := b\<rparr>) key cp = pendingAt fa key cp"
  "pendingAt (fa\<lparr>readyCalls := k\<rparr>) key cp = pendingAt fa key cp"
  by (simp_all add: locAt_def pendingAt_def)

lemma locAt_putAtlas:
  "locAt (putAtlas k va n fa) key cp = (if key = k then glyphIndex va cp else locAt fa key cp)"
  "pendingAt (putAtlas k va n fa) key cp =
     (if key = k then cp \<in> pendingGlyphs va else pendingAt fa key cp)"
  by (simp_all add: locAt_def pendingAt_def putAtlas_def)

lemma getOrCreateAtlas_locAt:
  assumes "getOrCreateAtlas vid gs fa = (k, atlas, fa1)"
  shows "k = atlasKey vid gs \<and> atlases fa1 k = Some atlas \<and>
         locAt fa1 key cp = locAt fa key cp \<and> pendingAt fa1 key cp = pendingAt fa key cp \<and>
         textureCount fa1 = textureCount fa \<and>
         locAt fa k cp = glyphIndex atlas cp \<and>
         pendingAt fa k cp = (cp \<in> pendingGlyphs atlas)"
  using assms
  by (auto simp: getOrCreateAtlas_def Let_def locAt_def pendingAt_def newVariantAtlas_def
      split: option.splits if_splits)

lemma generateGlyph_locAt:
  assumes "generateGlyph c gs fb axes fa = (g, fa1)"
  shows "locAt fa1 key cp = locAt fa key cp \<and> pendingAt fa1 key cp = pendingAt fa key cp \<and>
         atlases fa1 = atlases fa"
  using assms
  by (auto simp: generateGlyph_def Let_def locAt_def pendingAt_def
      split: option.splits list.splits)

text \<open>An entry for another atlas or another code point leaves the Location alone.\<close>

lemma processPending_other:
  assumes "processPending q fa = (r, fa')" and "entryKey q \<noteq> key \<or> pgCodePoint q \<noteq> cp"
  shows "locAt fa' key cp = locAt fa key cp \<and> pendingAt fa' key cp = pendingAt fa key cp"
proof -
  obtain k atlas fa1 where
    g: "getOrCreateAtlas (pgVariantId q) (pgGenSize q) fa = (k, atlas, fa1)"
    by (cases "getOrCreateAtlas (pgVariantId q) (pgGenSize q) fa") auto
  note ga = getOrCreateAtlas_locAt [OF g, of key cp]
  then have k: "k = entryKey q" by (simp add: entryKey_def)
  let ?fa2 = "fa1\<lparr>msdfFont := Some (pgFontBuffer q)\<rparr>"
  obtain glyph fa3 where
    gg: "generateGlyph (pgCodePoint q) (pgGenSize q) (pgFontBuffer q) (pgVariationAxes q) ?fa2
           = (glyph, fa3)"
    by (cases "generateGlyph (pgCodePoint q) (pgGenSize q) (pgFontBuffer q)
                 (pgVariationAxes q) ?fa2") auto
  note g3 = generateGlyph_locAt [OF gg, of key cp]
  have at: "key = k \<Longrightarrow> locAt fa key cp = glyphIndex atlas cp \<and>
              pendingAt fa key cp = (cp \<in> pendingGlyphs atlas)"
    using getOrCreateAtlas_locAt [OF g, of k cp] by blast
  have ne: "key = k \<Longrightarrow> cp \<noteq> pgCodePoint q" using assms(2) k by auto
  show ?thesis
  proof (cases "hasGlyph (msdf ?fa2) (msdfFont ?fa2) (pgCodePoint q)")
    case False
    with assms(1) g
    have "fa' = putAtlas k (markEmpty (pgCodePoint q) True atlas) (textureCount ?fa2) ?fa2"
      by (simp add: processPending_def Let_def)
    with ga at ne show ?thesis by (simp add: locAt_putAtlas markEmpty_other)
  next
    case True
    show ?thesis
    proof (cases glyph)
      case None
      with assms(1) g gg True
      have "fa' = putAtlas k (markEmpty (pgCodePoint q) False atlas) (textureCount fa3) fa3"
        by (simp add: processPending_def Let_def)
      with ga g3 at ne show ?thesis by (simp add: locAt_putAtlas markEmpty_other)
    next
      case (Some gl)
      let ?px = "floatToRGBA (gPixels gl) (msWidth (gMetrics gl)) (msHeight (gMetrics gl))"
      obtain err n atlas' where
        f: "fillGlyph (pgCodePoint q) ?px (toMetrics (gMetrics gl)) (textureCount fa3) atlas
              = (err, n, atlas')"
        by (cases "fillGlyph (pgCodePoint q) ?px (toMetrics (gMetrics gl)) (textureCount fa3) atlas")
           auto
      with assms(1) g gg True Some have "fa' = putAtlas k atlas' n fa3"
        by (simp add: processPending_def Let_def)
      with ga g3 at ne fillGlyph_other [OF f, of cp] show ?thesis
        by (simp add: locAt_putAtlas)
    qed
  qed
qed

text \<open>An entry whose font lacks the code point: the drain calls markEmpty(cp, true).\<close>

lemma processPending_missing:
  assumes "\<not> hasGlyph (msdf fa) (Some (pgFontBuffer q)) (pgCodePoint q)"
  shows "fst (processPending q fa) = None \<and>
         locAt (snd (processPending q fa)) (entryKey q) (pgCodePoint q)
           = map_option asMissing (locAt fa (entryKey q) (pgCodePoint q)) \<and>
         \<not> pendingAt (snd (processPending q fa)) (entryKey q) (pgCodePoint q)"
proof -
  obtain k atlas fa1 where
    g: "getOrCreateAtlas (pgVariantId q) (pgGenSize q) fa = (k, atlas, fa1)"
    by (cases "getOrCreateAtlas (pgVariantId q) (pgGenSize q) fa") auto
  note ga = getOrCreateAtlas_locAt [OF g, of "entryKey q" "pgCodePoint q"]
  then have k: "k = entryKey q" by (simp add: entryKey_def)
  from getOrCreateAtlas_sched [OF g] have m: "msdf fa1 = msdf fa" by (simp add: sameSched_def)
  let ?fa2 = "fa1\<lparr>msdfFont := Some (pgFontBuffer q)\<rparr>"
  from assms m g
  have "processPending q fa =
          (None, putAtlas k (markEmpty (pgCodePoint q) True atlas) (textureCount ?fa2) ?fa2)"
    by (simp add: processPending_def Let_def)
  moreover have "locAt fa (entryKey q) (pgCodePoint q) = glyphIndex atlas (pgCodePoint q)"
    using getOrCreateAtlas_locAt [OF g, of k "pgCodePoint q"] k by metis
  ultimately show ?thesis
    using k by (simp add: locAt_putAtlas markEmpty_same)
qed

lemma asMissing_idem [simp]: "asMissing (asMissing l) = asMissing l"
  by (simp add: asMissing_def)

text \<open>
  A run of the loop, whether it ends or throws, leaves the Location of a code point as it
  was or as \<^verbatim>\<open>markEmpty(cp, true)\<close> makes it, when the font of every entry for the code
  point lacks it.
\<close>

lemma processAll_append:
  "processAll (xs @ ys) fa =
     (case processAll xs fa of (Some e, s) \<Rightarrow> (Some e, s) | (None, s) \<Rightarrow> processAll ys s)"
proof (induction xs arbitrary: fa)
  case Nil
  then show ?case by simp
next
  case (Cons x xs)
  obtain r1 fa1 where p1: "processPending x fa = (r1, fa1)"
    by (cases "processPending x fa") auto
  with Cons.IH [of fa1] show ?case by (cases r1) simp_all
qed

lemma processAll_marked:
  assumes "processAll batch fa = (r, fa')"
    and "\<forall>q \<in> set batch. entryKey q = key \<and> pgCodePoint q = cp \<longrightarrow>
           \<not> hasGlyph (msdf fa) (Some (pgFontBuffer q)) cp"
  shows "(locAt fa' key cp = locAt fa key cp \<and> pendingAt fa' key cp = pendingAt fa key cp) \<or>
         (locAt fa' key cp = map_option asMissing (locAt fa key cp) \<and> \<not> pendingAt fa' key cp)"
  using assms
proof (induction batch arbitrary: fa)
  case Nil
  then show ?case by simp
next
  case (Cons q rest)
  obtain r1 fa1 where p1: "processPending q fa = (r1, fa1)"
    by (cases "processPending q fa") auto
  from processPending_sched [OF p1] have m: "msdf fa1 = msdf fa" by (simp add: sameSched_def)
  have step: "(locAt fa1 key cp = locAt fa key cp \<and> pendingAt fa1 key cp = pendingAt fa key cp) \<or>
         (r1 = None \<and> locAt fa1 key cp = map_option asMissing (locAt fa key cp) \<and>
          \<not> pendingAt fa1 key cp)"
  proof (cases "entryKey q = key \<and> pgCodePoint q = cp")
    case True
    with Cons.prems(2) have "\<not> hasGlyph (msdf fa) (Some (pgFontBuffer q)) (pgCodePoint q)"
      by simp
    from processPending_missing [OF this] p1 True show ?thesis by simp
  next
    case False
    then have "entryKey q \<noteq> key \<or> pgCodePoint q \<noteq> cp" by simp
    from processPending_other [OF p1 this] show ?thesis by simp
  qed
  show ?case
  proof (cases r1)
    case (Some e)
    with Cons.prems(1) p1 have "fa' = fa1" by simp
    with step Some show ?thesis by auto
  next
    case None
    with Cons.prems(1) p1 have rest: "processAll rest fa1 = (r, fa')" by simp
    from Cons.prems(2) m
    have "\<forall>q \<in> set rest. entryKey q = key \<and> pgCodePoint q = cp \<longrightarrow>
            \<not> hasGlyph (msdf fa1) (Some (pgFontBuffer q)) cp"
      by simp
    from Cons.IH [OF rest this] step show ?thesis
      by (auto simp: option.map_comp comp_def)
  qed
qed

lemma locAt_flushAll [simp]:
  "locAt (flushAll fa) key cp = locAt fa key cp"
  "pendingAt (flushAll fa) key cp = pendingAt fa key cp"
  by (simp_all add: locAt_def pendingAt_def flushAll_def split: option.splits)

lemma locAt_notify [simp]:
  "locAt (notify fa) key cp = locAt fa key cp"
  "pendingAt (notify fa) key cp = pendingAt fa key cp"
  by (simp_all add: notify_def)

lemma config_drain [simp]: "config (notify (flushAll fa)) = config fa"
  by (simp add: notify_def flushAll_def)

section \<open>The blit, row by row\<close>

lemma blit_blitRows: "blit pixels w h pw x y buf = blitRows pixels w h pw x y h buf"
  by (simp add: blit_def blitRows_def dstOffset_def Let_def)

lemma blitRows_Suc:
  "blitRows pixels w h pw x y (Suc k) buf =
     copyRow pixels (k * w * 4) (dstOffset h pw x y k) (w * 4) (blitRows pixels w h pw x y k buf)"
  by (simp add: blitRows_def)

lemma length_blitRows [simp]: "length (blitRows pixels w h pw x y k buf) = length buf"
  by (induction k) (simp_all add: blitRows_Suc, simp add: blitRows_def)

lemma dstOffset_gap:
  assumes "r < k" and "k < h"
  shows "dstOffset h pw x y k + 4 * pw \<le> dstOffset h pw x y r"
proof -
  from assms have d: "h - 1 - r = (h - 1 - k) + Suc (k - r - 1)" by arith
  show ?thesis unfolding dstOffset_def d by (simp add: algebra_simps)
qed

lemma blitRows_untouched:
  "i < length buf \<Longrightarrow>
   (\<forall>r < k. i < dstOffset h pw x y r \<or> dstOffset h pw x y r + w * 4 \<le> i) \<Longrightarrow>
   blitRows pixels w h pw x y k buf ! i = buf ! i"
proof (induction k)
  case 0
  then show ?case by (simp add: blitRows_def)
next
  case (Suc k)
  then show ?case
    by (simp add: blitRows_Suc copyRow_nth) (metis lessI not_less)
qed

lemma blitRows_written:
  assumes "w \<le> pw" and "k \<le> h" and "r < k" and "c < w * 4"
    and "dstOffset h pw x y r + c < length buf"
  shows "blitRows pixels w h pw x y k buf ! (dstOffset h pw x y r + c)
           = u8get pixels (r * w * 4 + c)"
  using assms(2,3)
proof (induction k)
  case 0
  then show ?case by simp
next
  case (Suc k)
  show ?case
  proof (cases "r = k")
    case True
    with assms(4,5) show ?thesis by (simp add: blitRows_Suc copyRow_nth)
  next
    case False
    with Suc.prems have rk: "r < k" and kh: "k < h" by simp_all
    from dstOffset_gap [OF rk kh, of pw x y] assms(1)
    have "dstOffset h pw x y k + w * 4 \<le> dstOffset h pw x y r + c" by simp
    with Suc.IH rk kh assms(5) show ?thesis
      by (simp add: blitRows_Suc copyRow_nth)
  qed
qed


lemma tryAdd_inside:
  assumes "tryAdd p pixels w h = (Some (x, y), p')"
  shows "(x + w \<le> width p \<longleftrightarrow> w \<le> width p) \<and> y + h < height p"
  using assms
  by (auto simp: tryAdd_def advanceShelf_def padding_def Let_def split: if_splits)

lemma tryAdd_buffer:
  assumes "tryAdd p pixels w h = (Some (x, y), p')"
  shows "buffer p' = blit pixels w h (width p) x y (buffer p)"
  using assms
  by (auto simp: tryAdd_def advanceShelf_def padding_def Let_def split: if_splits)

lemma row_in_page:
  assumes "x + w \<le> pw" and "y + h < ph" and "r < h" and "c < w * 4"
  shows "dstOffset h pw x y r + c < pw * ph * 4"
proof -
  from assms(3) have "y + (h - 1 - r) + 1 \<le> y + h" by arith
  with assms(2) have "y + (h - 1 - r) + 1 \<le> ph" by arith
  then have "(y + (h - 1 - r) + 1) * pw \<le> ph * pw" by (rule mult_le_mono1)
  then have "(y + (h - 1 - r)) * pw + pw \<le> pw * ph" by (simp add: algebra_simps)
  with assms(1,4) show ?thesis unfolding dstOffset_def by arith
qed

lemma src_in_pixels:
  assumes "(r::nat) < h" and "(c::nat) < w * 4"
  shows "r * w * 4 + c < w * h * 4"
proof -
  from assms(1) have "Suc r \<le> h" by simp
  then have "Suc r * (w * 4) \<le> h * (w * 4)" by (rule mult_le_mono1)
  with assms(2) show ?thesis by (simp add: algebra_simps)
qed

text \<open>
  The blit of a glyph that is not wider than the page: every source byte lands at the
  flipped row, and a byte outside the rows written keeps its value.
\<close>

lemma tryAdd_blit:
  assumes "tryAdd p pixels w h = (Some (x, y), p')"
    and "w \<le> width p"
    and "length (buffer p) = width p * height p * 4"
    and "length pixels = w * h * 4"
  shows "(\<forall>r < h. \<forall>c < w * 4.
            buffer p' ! (((y + (h - 1 - r)) * width p + x) * 4 + c) = pixels ! (r * w * 4 + c)) \<and>
         (\<forall>i < length (buffer p).
            (\<forall>r < h. i < ((y + (h - 1 - r)) * width p + x) * 4 \<or>
                      ((y + (h - 1 - r)) * width p + x) * 4 + w * 4 \<le> i) \<longrightarrow>
            buffer p' ! i = buffer p ! i) \<and>
         length (buffer p') = length (buffer p)"
proof -
  from tryAdd_inside [OF assms(1)] assms(2)
  have xw: "x + w \<le> width p" and yh: "y + h < height p" by simp_all
  note b = tryAdd_buffer [OF assms(1)]
  have written: "buffer p' ! (((y + (h - 1 - r)) * width p + x) * 4 + c) = pixels ! (r * w * 4 + c)"
    if "r < h" and "c < w * 4" for r c
  proof -
    from row_in_page [OF xw yh that] assms(3)
    have "dstOffset h (width p) x y r + c < length (buffer p)" by simp
    from blitRows_written [OF assms(2) le_refl that(1,2) this, of pixels]
      src_in_pixels [OF that] assms(4)
    show ?thesis by (simp add: b blit_blitRows dstOffset_def u8get_def)
  qed
  have untouched: "buffer p' ! i = buffer p ! i"
    if "i < length (buffer p)"
      and "\<forall>r < h. i < ((y + (h - 1 - r)) * width p + x) * 4 \<or>
                    ((y + (h - 1 - r)) * width p + x) * 4 + w * 4 \<le> i" for i
    using blitRows_untouched [of i "buffer p" h h "width p" x y w pixels] that
    by (simp add: b blit_blitRows dstOffset_def)
  from written untouched show ?thesis by (simp add: b blit_blitRows)
qed

section \<open>Page.tryAdd: the shelf discipline\<close>

text \<open>
  C4. \<^verbatim>\<open>tryAdd\<close> for a \<open>w \<times> h\<close> glyph pads both sides by one; when
  \<open>cursorX + paddedW > W\<close> it first advances the shelf (\<open>cursorY += rowHeight + 1\<close>,
  \<open>cursorX = 0\<close>, \<open>rowHeight = 0\<close>); it answers "no fit" exactly when, after that,
  \<open>cursorY + paddedH > H\<close>, and then the page is left as the advance made it; otherwise
  it answers the cursor position it placed the glyph at, and then \<open>cursorX\<close> has grown by
  \<open>paddedW\<close>, \<open>rowHeight\<close> is the maximum of its old value and \<open>paddedH\<close>, the page is
  dirty, the buffer holds the blit at that position, and size and texture are as before.
\<close>

theorem tryAdd_shelf:
  "(let paddedW = w + 1;
        paddedH = h + 1;
        p1 = (if cursorX p + paddedW > width p
              then p\<lparr>cursorY := cursorY p + (rowHeight p + 1), cursorX := 0, rowHeight := 0\<rparr>
              else p);
        (res, p') = tryAdd p pixels w h
    in (res = None \<longleftrightarrow> cursorY p1 + paddedH > height p) \<and>
       (res = None \<longrightarrow> p' = p1) \<and>
       (res \<noteq> None \<longrightarrow>
          res = Some (cursorX p1, cursorY p1) \<and>
          cursorX p' = cursorX p1 + paddedW \<and>
          cursorY p' = cursorY p1 \<and>
          rowHeight p' = max (rowHeight p1) paddedH \<and>
          dirty p' \<and>
          width p' = width p \<and> height p' = height p \<and> texture p' = texture p \<and>
          buffer p' = blit pixels w h (width p) (cursorX p1) (cursorY p1) (buffer p)))"
  by (simp add: tryAdd_def advanceShelf_def padding_def Let_def)

text \<open>
  Three calls for a glyph of 1 by 1: with the cursor at the end of a shelf on a page 8
  high (the shelf advances, the glyph is placed at \<open>(0, 3)\<close>); the same on a page 4 high
  (the shelf advances and there is no fit: the page keeps \<open>cursorY = 3\<close>); and on a new
  page (no advance, placed at \<open>(0, 0)\<close>).
\<close>

theorem tryAdd_shelf_witness:
  "fst (tryAdd ((newPage 4 8 0)\<lparr>cursorX := 3, rowHeight := 2\<rparr>) [1, 2, 3, 4] 1 1) = Some (0, 3) \<and>
   cursorX (snd (tryAdd ((newPage 4 8 0)\<lparr>cursorX := 3, rowHeight := 2\<rparr>) [1, 2, 3, 4] 1 1)) = 2 \<and>
   cursorY (snd (tryAdd ((newPage 4 8 0)\<lparr>cursorX := 3, rowHeight := 2\<rparr>) [1, 2, 3, 4] 1 1)) = 3 \<and>
   rowHeight (snd (tryAdd ((newPage 4 8 0)\<lparr>cursorX := 3, rowHeight := 2\<rparr>) [1, 2, 3, 4] 1 1)) = 2 \<and>
   dirty (snd (tryAdd ((newPage 4 8 0)\<lparr>cursorX := 3, rowHeight := 2\<rparr>) [1, 2, 3, 4] 1 1)) \<and>
   fst (tryAdd ((newPage 4 4 0)\<lparr>cursorX := 3, rowHeight := 2\<rparr>) [1, 2, 3, 4] 1 1) = None \<and>
   snd (tryAdd ((newPage 4 4 0)\<lparr>cursorX := 3, rowHeight := 2\<rparr>) [1, 2, 3, 4] 1 1) =
     (newPage 4 4 0)\<lparr>cursorY := 3\<rparr> \<and>
   fst (tryAdd (newPage 4 4 0) [1, 2, 3, 4] 1 1) = Some (0, 0) \<and>
   cursorX (snd (tryAdd (newPage 4 4 0) [1, 2, 3, 4] 1 1)) = 2 \<and>
   cursorY (snd (tryAdd (newPage 4 4 0) [1, 2, 3, 4] 1 1)) = 0 \<and>
   rowHeight (snd (tryAdd (newPage 4 4 0) [1, 2, 3, 4] 1 1)) = 2"
  using tryAdd_shelf [of 1 1 "(newPage 4 8 0)\<lparr>cursorX := 3, rowHeight := 2\<rparr>" "[1, 2, 3, 4]"]
    tryAdd_shelf [of 1 1 "(newPage 4 4 0)\<lparr>cursorX := 3, rowHeight := 2\<rparr>" "[1, 2, 3, 4]"]
    tryAdd_shelf [of 1 1 "newPage 4 4 0" "[1, 2, 3, 4]"]
  by (simp add: newPage_def Let_def case_prod_beta)

section \<open>Well-formed states\<close>

lemma firstFit_page: "firstFit gh i ps = Some (j, p) \<Longrightarrow> p \<in> set ps"
  by (induction ps arbitrary: i) (auto split: if_splits)

lemma getOrCreatePage_pos:
  assumes "va_ok va" and "getOrCreatePage isL gh n va = (sel, page, n', va')"
  shows "0 < width page \<and> 0 < height page"
  using assms
  by (auto simp: getOrCreatePage_def va_ok_def createMixedPage_def newPage_def Let_def list_all_iff
      split: if_splits option.splits dest: firstFit_page)

lemma getOrCreateAtlas_ok:
  assumes "fa_ok fa" and "getOrCreateAtlas vid gs fa = (key, atlas, fa1)"
  shows "va_ok atlas"
  using assms
  by (auto simp: getOrCreateAtlas_def fa_ok_def Let_def newVariantAtlas_def va_ok_def
      split: option.splits)

lemma fa_ok_new: "0 < cfgPageSize cfg \<Longrightarrow> fa_ok (newFontAtlas gen cb cfg)"
  by (simp add: fa_ok_def newFontAtlas_def)

lemma getOrCreatePage_member:
  assumes "getOrCreatePage isL gh n va = (sel, page, n', va')"
  shows "texture page \<in>
           texture ` (if isL then set_option (latinPage va') else set (mixedPages va'))"
  using assms
  by (auto simp: getOrCreatePage_def createMixedPage_def Let_def
      split: if_splits option.splits dest: firstFit_page)

lemma gs32: "selectGenSize DEFAULT_CONFIG 32 = Some 32"
  by (simp add: selectGenSize_def DEFAULT_CONFIG_def nthOpt_def)

lemmas eval_defs = getGlyph_def getOrCreateAtlas_def newFontAtlas_def
  newVariantAtlas_def va_getGlyph_def Let_def case_prod_beta queueGeneration_def putAtlas_def
  requestFor_def gs32 reserveGlyph_def getOrCreatePage_def isLatinChar_def LATIN_RANGES_def

lemma default_fields:
  "cfgMaxMixedPages DEFAULT_CONFIG = 8" "pixelRange DEFAULT_CONFIG = 4"
  "cfgPageSize DEFAULT_CONFIG = 1024"
  by (simp_all add: DEFAULT_CONFIG_def)

section \<open>A second request for a pending code point\<close>

lemma firstMiss_pending:
  "map_option pendingGlyphs (atlases firstMiss (atlasKey ''v'' (Some 32))) = Some {65}"
  by (simp add: firstMiss_def eval_defs)

lemma firstMiss_config: "config firstMiss = DEFAULT_CONFIG"
  by (simp add: firstMiss_def eval_defs)

text \<open>
  C1, as the specification states it: a repeated \<^verbatim>\<open>getGlyph\<close> for a code point in the
  pending set leaves the FIFO as it was. On the code this fails: after one miss for
  \<open>A\<close> the code point is pending, and the second request answers \<open>cached = false\<close> and
  appends a second entry.
\<close>

theorem getGlyph_pending_again_counterexample:
  "map_option pendingGlyphs (atlases firstMiss (atlasKey ''v'' (Some 32))) = Some {65} \<and>
   \<not> cached (fst (getGlyph (requestFor 65) firstMiss)) \<and>
   faPendingGlyphs (snd (getGlyph (requestFor 65) firstMiss)) \<noteq> faPendingGlyphs firstMiss"
proof -
  have "length (faPendingGlyphs (snd (getGlyph (requestFor 65) firstMiss))) = 2"
    by (simp add: firstMiss_def eval_defs)
  moreover have "length (faPendingGlyphs firstMiss) = 1"
    by (simp add: firstMiss_def eval_defs)
  ultimately have
    "faPendingGlyphs (snd (getGlyph (requestFor 65) firstMiss)) \<noteq> faPendingGlyphs firstMiss"
    by auto
  moreover have "\<not> cached (fst (getGlyph (requestFor 65) firstMiss))"
    by (simp add: firstMiss_def eval_defs locationToInfo_def)
  ultimately show ?thesis using firstMiss_pending by simp
qed

text \<open>
  C1, amended. For a code point in the pending set of the variant atlas that serves the
  request, \<^verbatim>\<open>getGlyph\<close> answers placeholder information with \<open>cached = false\<close> and
  appends one more Pending Glyph for the request to the FIFO; the pending set of the
  atlas stays as it was and a drain is outstanding afterwards.
\<close>

theorem getGlyph_pending_again:
  assumes "atlases fa (atlasKey (reqVariantId request)
                        (selectGenSize (config fa) (renderSize request))) = Some va"
    and "codePoint request \<in> pendingGlyphs va"
    and "getGlyph request fa = (info, fa')"
  shows "\<not> cached info \<and> iMetrics info = PLACEHOLDER_METRICS \<and>
         \<not> iEmpty info \<and> \<not> iMissing info \<and>
         faPendingGlyphs fa' = faPendingGlyphs fa @
           [\<lparr>pgCodePoint = codePoint request,
             pgGenSize = selectGenSize (config fa) (renderSize request),
             pgFontBuffer = fontBuffer request,
             pgVariationAxes = variationAxes request,
             pgVariantId = reqVariantId request\<rparr>] \<and>
         batchPromise fa' \<and>
         map_option pendingGlyphs
           (atlases fa' (atlasKey (reqVariantId request)
                          (selectGenSize (config fa) (renderSize request))))
           = Some (pendingGlyphs va)"
proof -
  let ?gs = "selectGenSize (config fa) (renderSize request)"
  have goa: "getOrCreateAtlas (reqVariantId request) ?gs fa
               = (atlasKey (reqVariantId request) ?gs, va, fa)"
    using assms(1) by (simp add: getOrCreateAtlas_def)
  have none: "va_getGlyph va (codePoint request) = None"
    using assms(2) by (simp add: va_getGlyph_def)
  obtain sel page n1 va1 where
    gp: "getOrCreatePage (isLatinChar (codePoint request)) (genSize va) (textureCount fa) va
           = (sel, page, n1, va1)"
    by (cases "getOrCreatePage (isLatinChar (codePoint request)) (genSize va)
                 (textureCount fa) va") auto
  note fr = getOrCreatePage_frame [OF gp]
  show ?thesis
    using assms(2,3) goa none gp fr
    by (auto simp: getGlyph_def Let_def locationToInfo_def reserveGlyph_def putAtlas_def
        queueGeneration_def insert_absorb)
qed

theorem getGlyph_pending_again_witness:
  "\<not> cached (fst (getGlyph (requestFor 65) firstMiss)) \<and>
   length (faPendingGlyphs (snd (getGlyph (requestFor 65) firstMiss))) =
     Suc (length (faPendingGlyphs firstMiss)) \<and>
   batchPromise (snd (getGlyph (requestFor 65) firstMiss))"
proof -
  obtain va where va: "atlases firstMiss (atlasKey ''v'' (Some 32)) = Some va"
    and pend: "pendingGlyphs va = {65}"
    using firstMiss_pending by (auto simp: map_option_case split: option.splits)
  have a1: "atlases firstMiss (atlasKey (reqVariantId (requestFor 65))
              (selectGenSize (config firstMiss) (renderSize (requestFor 65)))) = Some va"
    using va by (simp add: firstMiss_config requestFor_def gs32)
  have a2: "codePoint (requestFor 65) \<in> pendingGlyphs va"
    by (simp add: pend requestFor_def)
  show ?thesis
    using getGlyph_pending_again [OF a1 a2 surjective_pairing] by simp
qed

section \<open>Well-formed states are kept\<close>

lemma va_ok_cong:
  "pageSize va' = pageSize va \<Longrightarrow> latinPage va' = latinPage va \<Longrightarrow>
   mixedPages va' = mixedPages va \<Longrightarrow> va_ok va' = va_ok va"
  by (simp add: va_ok_def)

lemma va_ok_simps [simp]:
  "va_ok (updateGlyphLocation cp page pos m va) = va_ok va"
  "va_ok (snd (storeGlyph cp page pos m va)) = va_ok va"
  "va_ok (markEmpty cp mi va) = va_ok va"
  by (rule va_ok_cong; simp)+

lemma va_ok_flush [simp]: "va_ok (flushDirtyPages va) = va_ok va"
  by (cases "latinPage va")
     (simp_all add: va_ok_def flushDirtyPages_def list_all_iff)

lemma va_ok_setPage:
  "va_ok va \<Longrightarrow> 0 < width p \<Longrightarrow> 0 < height p \<Longrightarrow> va_ok (setPage sel p va)"
  by (cases sel) (auto simp: va_ok_def setPage_def list_all_iff dest: set_update_subset_insert [THEN subsetD])

lemma va_ok_getOrCreatePage:
  assumes "va_ok va" and "getOrCreatePage isL gh n va = (sel, page, n1, va1)"
  shows "va_ok va1"
  using assms
  by (auto simp: getOrCreatePage_def va_ok_def createMixedPage_def newPage_def Let_def
      split: if_splits option.splits)

lemma va_ok_append:
  "va_ok va \<Longrightarrow> 0 < width p \<Longrightarrow> 0 < height p \<Longrightarrow>
     va_ok (va\<lparr>mixedPages := mixedPages va @ [p]\<rparr>)"
  by (simp add: va_ok_def)

lemma tryAdd_pos:
  "0 < width p \<Longrightarrow> 0 < height p \<Longrightarrow>
     0 < width (snd (tryAdd p pixels w h)) \<and> 0 < height (snd (tryAdd p pixels w h))"
  using tryAdd_frame [of p pixels w h "fst (tryAdd p pixels w h)" "snd (tryAdd p pixels w h)"]
  by simp

lemma va_ok_retryFresh:
  assumes "va_ok va"
  shows "va_ok (snd (snd (retryFresh cp pixels m n va)))"
    and "va_ok (snd (snd (retryFreshStore cp pixels m n va)))"
proof -
  let ?fresh = "newPage (pageSize va) (pageSize va) n"
  from assms have "0 < width ?fresh" "0 < height ?fresh" by (simp_all add: va_ok_def newPage_def)
  from tryAdd_pos [OF this, of pixels "mWidth m" "mHeight m"] assms
  have ok: "va_ok (va\<lparr>mixedPages := mixedPages va @
              [snd (tryAdd ?fresh pixels (mWidth m) (mHeight m))]\<rparr>)"
    by (simp add: va_ok_append)
  show "va_ok (snd (snd (retryFresh cp pixels m n va)))"
    using ok by (simp add: retryFresh_def Let_def split: option.splits)
  show "va_ok (snd (snd (retryFreshStore cp pixels m n va)))"
    using ok by (simp add: retryFreshStore_def Let_def split: option.splits)
qed

lemma va_ok_fillGlyph:
  assumes "va_ok va"
  shows "va_ok (snd (snd (fillGlyph cp pixels m n va)))"
proof -
  obtain sel page n1 va1 where
    g: "getOrCreatePage (isLatinChar cp) (Some (mHeight m)) n va = (sel, page, n1, va1)"
    by (cases "getOrCreatePage (isLatinChar cp) (Some (mHeight m)) n va") auto
  obtain pos page' where t: "tryAdd page pixels (mWidth m) (mHeight m) = (pos, page')"
    by (cases "tryAdd page pixels (mWidth m) (mHeight m)") auto
  from getOrCreatePage_pos [OF assms g] tryAdd_frame [OF t]
  have "0 < width page'" "0 < height page'" by simp_all
  with va_ok_getOrCreatePage [OF assms g] have ok: "va_ok (setPage sel page' va1)"
    by (simp add: va_ok_setPage)
  from fillGlyph_unfold [OF g t] ok va_ok_retryFresh(1) [OF ok] show ?thesis
    by (simp split: option.splits)
qed

lemma va_ok_addGlyph:
  assumes "va_ok va"
  shows "va_ok (snd (snd (addGlyph cp pixels m n va)))"
proof -
  obtain sel page n1 va1 where
    g: "getOrCreatePage (isLatinChar cp) (Some (mHeight m)) n va = (sel, page, n1, va1)"
    by (cases "getOrCreatePage (isLatinChar cp) (Some (mHeight m)) n va") auto
  obtain pos page' where t: "tryAdd page pixels (mWidth m) (mHeight m) = (pos, page')"
    by (cases "tryAdd page pixels (mWidth m) (mHeight m)") auto
  from getOrCreatePage_pos [OF assms g] tryAdd_frame [OF t]
  have "0 < width page'" "0 < height page'" by simp_all
  with va_ok_getOrCreatePage [OF assms g] have ok: "va_ok (setPage sel page' va1)"
    by (simp add: va_ok_setPage)
  from addGlyph_unfold [OF g t] ok va_ok_retryFresh(2) [OF ok] show ?thesis
    by (simp split: option.splits)
qed

lemma va_ok_reserveGlyph:
  assumes "va_ok va"
  shows "va_ok (snd (snd (reserveGlyph cp n va)))"
proof -
  obtain sel page n1 va1 where
    g: "getOrCreatePage (isLatinChar cp) (genSize va) n va = (sel, page, n1, va1)"
    by (cases "getOrCreatePage (isLatinChar cp) (genSize va) n va") auto
  from va_ok_getOrCreatePage [OF assms g] g show ?thesis
    by (simp add: reserveGlyph_def Let_def va_ok_def)
qed

lemma fa_ok_putAtlas:
  "fa_ok fa \<Longrightarrow> va_ok va \<Longrightarrow> fa_ok (putAtlas key va n fa)"
  by (simp add: fa_ok_def putAtlas_def)

lemma fa_ok_upd [simp]:
  "fa_ok (fa\<lparr>msdfFont := f\<rparr>) = fa_ok fa"
  "fa_ok (fa\<lparr>msdfAxes := ax\<rparr>) = fa_ok fa"
  "fa_ok (fa\<lparr>textureCount := n\<rparr>) = fa_ok fa"
  "fa_ok (fa\<lparr>faPendingGlyphs := q\<rparr>) = fa_ok fa"
  "fa_ok (fa\<lparr>batchPromise := b\<rparr>) = fa_ok fa"
  "fa_ok (fa\<lparr>readyCalls := k\<rparr>) = fa_ok fa"
  by (simp_all add: fa_ok_def)

lemma va_ok_new: "0 < ps \<Longrightarrow> va_ok (newVariantAtlas vid gs ps mx)"
  by (simp add: va_ok_def newVariantAtlas_def)

lemma fa_ok_getOrCreateAtlas:
  assumes "fa_ok fa" and "getOrCreateAtlas vid gs fa = (key, atlas, fa1)"
  shows "fa_ok fa1"
  using assms
  by (auto simp: getOrCreateAtlas_def fa_ok_def Let_def va_ok_new
      split: option.splits if_splits)

lemma fa_ok_generateGlyph:
  "fa_ok fa \<Longrightarrow> fa_ok (snd (generateGlyph cp gs fb axes fa))"
  by (simp add: generateGlyph_def Let_def split: option.splits list.splits)

text \<open>Every operation of the FontAtlas keeps a state well-formed.\<close>

lemma fa_ok_getGlyph:
  assumes "fa_ok fa"
  shows "fa_ok (snd (getGlyph request fa))"
proof -
  let ?gs = "selectGenSize (config fa) (renderSize request)"
  obtain key atlas fa1 where g: "getOrCreateAtlas (reqVariantId request) ?gs fa = (key, atlas, fa1)"
    by (cases "getOrCreateAtlas (reqVariantId request) ?gs fa") auto
  note ok1 = fa_ok_getOrCreateAtlas [OF assms g] and oka = getOrCreateAtlas_ok [OF assms g]
  from va_ok_reserveGlyph [OF oka, of "codePoint request" "textureCount fa1"] ok1 g
  show ?thesis
    by (auto simp: getGlyph_def Let_def queueGeneration_def fa_ok_putAtlas case_prod_beta
        split: option.splits)
qed

lemma fa_ok_processPending:
  assumes "fa_ok fa"
  shows "fa_ok (snd (processPending p fa))"
proof -
  obtain key atlas fa1 where
    g: "getOrCreateAtlas (pgVariantId p) (pgGenSize p) fa = (key, atlas, fa1)"
    by (cases "getOrCreateAtlas (pgVariantId p) (pgGenSize p) fa") auto
  note ok1 = fa_ok_getOrCreateAtlas [OF assms g] and oka = getOrCreateAtlas_ok [OF assms g]
  let ?fa2 = "fa1\<lparr>msdfFont := Some (pgFontBuffer p)\<rparr>"
  from ok1 have ok2: "fa_ok ?fa2" by simp
  note ok3 = fa_ok_generateGlyph [OF ok2, of "pgCodePoint p" "pgGenSize p" "pgFontBuffer p"
      "pgVariationAxes p"]
  from g ok2 ok3 oka show ?thesis
    by (auto simp: processPending_def Let_def case_prod_beta fa_ok_putAtlas va_ok_fillGlyph
        split: option.splits)
qed

lemma fa_ok_processAll: "fa_ok fa \<Longrightarrow> fa_ok (snd (processAll batch fa))"
proof (induction batch arbitrary: fa)
  case Nil
  then show ?case by simp
next
  case (Cons p rest)
  from fa_ok_processPending [OF Cons.prems, of p] Cons.IH [of "snd (processPending p fa)"]
  show ?case
    by (cases "processPending p fa") (auto split: option.splits)
qed

lemma fa_ok_flushAll: "fa_ok fa \<Longrightarrow> fa_ok (notify (flushAll fa))"
  by (auto simp: fa_ok_def flushAll_def notify_def)

lemma fa_ok_processBatch:
  assumes "fa_ok fa"
  shows "fa_ok (snd (processBatch fa))"
proof -
  let ?fa1 = "fa\<lparr>faPendingGlyphs := [], batchPromise := False\<rparr>"
  from assms have ok1: "fa_ok ?fa1" by simp
  from fa_ok_processAll [OF ok1, of "faPendingGlyphs fa"] ok1 show ?thesis
    by (cases "processAll (faPendingGlyphs fa) ?fa1")
       (auto simp: processBatch_def Let_def fa_ok_flushAll split: option.splits)
qed

lemma ok_prefabStep:
  assumes "fa_ok fa" and "va_ok atlas"
  shows "fa_ok (fst (snd (prefabStep gs fb axes cp (fa, atlas)))) \<and>
         va_ok (snd (snd (prefabStep gs fb axes cp (fa, atlas))))"
  using assms fa_ok_generateGlyph [OF assms(1), of cp gs fb axes]
    va_ok_reserveGlyph [OF assms(2), of cp] va_ok_addGlyph [OF assms(2), of cp]
  by (auto simp: prefabStep_def Let_def case_prod_beta split: option.splits)

lemma ok_prefabLoop:
  "fa_ok fa \<Longrightarrow> va_ok atlas \<Longrightarrow>
     fa_ok (fst (snd (prefabLoop gs fb axes cps (fa, atlas)))) \<and>
     va_ok (snd (snd (prefabLoop gs fb axes cps (fa, atlas))))"
proof (induction cps arbitrary: fa atlas)
  case Nil
  then show ?case by simp
next
  case (Cons cp cps)
  obtain r fa1 atlas1 where s: "prefabStep gs fb axes cp (fa, atlas) = (r, fa1, atlas1)"
    by (cases "prefabStep gs fb axes cp (fa, atlas)") auto
  from ok_prefabStep [OF Cons.prems, of gs fb axes cp] s
  have ok: "fa_ok fa1" "va_ok atlas1" by simp_all
  from Cons.IH [OF ok] s ok show ?case by (cases r) simp_all
qed

lemma fa_ok_prefabLatin:
  assumes "fa_ok fa"
  shows "fa_ok (snd (prefabLatin vid fontSize fb axes fa))"
proof -
  let ?gs = "selectGenSize (config fa) fontSize"
  obtain key atlas fa1 where g: "getOrCreateAtlas vid ?gs fa = (key, atlas, fa1)"
    by (cases "getOrCreateAtlas vid ?gs fa") auto
  note ok1 = fa_ok_getOrCreateAtlas [OF assms g] and oka = getOrCreateAtlas_ok [OF assms g]
  obtain r fa2 atlas' where
    l: "prefabLoop ?gs fb axes LATIN_CODEPOINTS (fa1, atlas) = (r, fa2, atlas')"
    by (cases "prefabLoop ?gs fb axes LATIN_CODEPOINTS (fa1, atlas)") auto
  from ok_prefabLoop [OF ok1 oka, of ?gs fb axes LATIN_CODEPOINTS] l
  have "fa_ok fa2" "va_ok atlas'" by simp_all
  with g l show ?thesis
    by (cases r) (auto simp: prefabLatin_def Let_def fa_ok_def)
qed

section \<open>FontAtlas.getGlyph on a miss\<close>

text \<open>
  C10. Whenever \<^verbatim>\<open>FontAtlas.getGlyph\<close> misses the cache (\<open>cached = false\<close>), the Glyph
  Info it returns has all four UVs 0, the all-zero placeholder metrics, \<open>empty = false\<close>
  and \<open>missing = false\<close>. What carries information is the generation size, which is the
  one selected for the render size, and the texture handle: it is the texture of the page
  of the Location that the call has reserved for the code point in the variant atlas of
  the request (where the code point is now pending), and that page is the Latin page of
  the atlas for a Latin code point and one of its mixed pages otherwise.
  The state is well-formed: the page size is positive, as the configuration demands
  (with a page size of 0 the UVs would be 0/0).
\<close>

theorem getGlyph_miss_placeholder:
  assumes "fa_ok fa" and "getGlyph request fa = (info, fa')" and "\<not> cached info"
  shows "uvs info = \<lparr>u0 = Some 0, v0 = Some 0, u1 = Some 0, v1 = Some 0\<rparr> \<and>
         iMetrics info =
           \<lparr>mWidth = 0, mHeight = 0, advance = 0, xOffset = 0, yOffset = 0,
            planeBounds = \<lparr>pbL = 0, pbB = 0, pbR = 0, pbT = 0\<rparr>\<rparr> \<and>
         \<not> iEmpty info \<and> \<not> iMissing info \<and>
         iGenSize info = selectGenSize (config fa) (renderSize request) \<and>
         (\<exists>va' loc.
            atlases fa' (atlasKey (reqVariantId request)
                          (selectGenSize (config fa) (renderSize request))) = Some va' \<and>
            glyphIndex va' (codePoint request) = Some loc \<and>
            codePoint request \<in> pendingGlyphs va' \<and>
            iTexture info = pTexture (locPage loc) \<and>
            iTexture info \<in> texture `
              (if isLatinChar (codePoint request) then set_option (latinPage va')
               else set (mixedPages va')))"
proof -
  let ?gs = "selectGenSize (config fa) (renderSize request)"
  obtain key atlas fa1 where
    goa: "getOrCreateAtlas (reqVariantId request) ?gs fa = (key, atlas, fa1)"
    by (cases "getOrCreateAtlas (reqVariantId request) ?gs fa") auto
  have ok: "va_ok atlas" using getOrCreateAtlas_ok [OF assms(1) goa] .
  have key: "key = atlasKey (reqVariantId request) ?gs"
    using goa by (auto simp: getOrCreateAtlas_def Let_def split: option.splits)
  obtain sel page n1 va1 where
    gp: "getOrCreatePage (isLatinChar (codePoint request)) (genSize atlas) (textureCount fa1) atlas
           = (sel, page, n1, va1)"
    by (cases "getOrCreatePage (isLatinChar (codePoint request)) (genSize atlas)
                 (textureCount fa1) atlas") auto
  have pos: "0 < width page \<and> 0 < height page" using getOrCreatePage_pos [OF ok gp] .
  note mem = getOrCreatePage_member [OF gp]
  let ?loc = "\<lparr>locPage = pageInfo page, locX = 0, locY = 0, locWidth = 0, locHeight = 0,
               locMetrics = PLACEHOLDER_METRICS, locEmpty = False, locMissing = False\<rparr>"
  let ?va2 = "va1\<lparr>pendingGlyphs := insert (codePoint request) (pendingGlyphs va1),
                  glyphIndex := (glyphIndex va1)(codePoint request \<mapsto> ?loc)\<rparr>"
  have res: "reserveGlyph (codePoint request) (textureCount fa1) atlas = (?loc, n1, ?va2)"
    using gp by (simp add: reserveGlyph_def Let_def)
  have miss: "va_getGlyph atlas (codePoint request) = None"
    using assms(2,3) goa by (auto simp: getGlyph_def Let_def locationToInfo_def split: option.splits)
  have info: "info = locationToInfo ?loc ?gs False"
    and at: "atlases fa' key = Some ?va2"
    using assms(2) goa miss res
    by (auto simp: getGlyph_def Let_def putAtlas_def queueGeneration_def)
  have "uvs info = \<lparr>u0 = Some 0, v0 = Some 0, u1 = Some 0, v1 = Some 0\<rparr>"
    using pos by (simp add: info locationToInfo_def Let_def pageInfo_def jsDiv_def)
  moreover have "iMetrics info =
           \<lparr>mWidth = 0, mHeight = 0, advance = 0, xOffset = 0, yOffset = 0,
            planeBounds = \<lparr>pbL = 0, pbB = 0, pbR = 0, pbT = 0\<rparr>\<rparr>"
    by (simp add: info locationToInfo_def Let_def PLACEHOLDER_METRICS_def)
  moreover have "\<not> iEmpty info \<and> \<not> iMissing info \<and> iGenSize info = ?gs"
    by (simp add: info locationToInfo_def Let_def)
  moreover have "iTexture info = pTexture (locPage ?loc)"
    by (simp add: info locationToInfo_def Let_def)
  moreover have "iTexture info \<in> texture `
              (if isLatinChar (codePoint request) then set_option (latinPage ?va2)
               else set (mixedPages ?va2))"
    using mem by (simp add: info locationToInfo_def Let_def pageInfo_def split: if_splits)
  moreover have "glyphIndex ?va2 (codePoint request) = Some ?loc"
    and "codePoint request \<in> pendingGlyphs ?va2"
    by simp_all
  ultimately show ?thesis using at [unfolded key] by blast
qed

text \<open>
  Two misses: the first request on a new \<^verbatim>\<open>FontAtlas\<close>, for \<open>A\<close>, is served by the Latin
  page (texture 0); the next one, for U+4E00, by the first mixed page (texture 1).
\<close>

lemma firstMiss_ok: "fa_ok firstMiss"
  unfolding firstMiss_def
  by (rule fa_ok_getGlyph) (simp add: fa_ok_new DEFAULT_CONFIG_def)

lemma isLatin_cjk: "\<not> isLatinChar 0x4E00"
  by (simp add: isLatinChar_def LATIN_RANGES_def)

lemma firstMiss_val:
  "firstMiss =
    \<lparr>msdf = emptyFont, msdfFont = None, msdfAxes = [], textureCount = 1,
     config = DEFAULT_CONFIG,
     atlases = [atlasKey ''v'' (Some 32) \<mapsto>
       \<lparr>variantId = ''v'', genSize = Some 32, latinPage = Some (newPage 1024 1024 0),
        mixedPages = [],
        glyphIndex = [65 \<mapsto> \<lparr>locPage = \<lparr>pTexture = 0, pWidth = 1024, pHeight = 1024\<rparr>,
           locX = 0, locY = 0, locWidth = 0, locHeight = 0, locMetrics = PLACEHOLDER_METRICS,
           locEmpty = False, locMissing = False\<rparr>],
        pendingGlyphs = {65}, pageSize = 1024, maxMixedPages = 8\<rparr>],
     onGlyphsReady = True, readyCalls = 0, faPendingGlyphs = [pendingA], batchPromise = True\<rparr>"
  by (simp add: firstMiss_def eval_defs pendingA_def pageInfo_def newPage_def default_fields)

lemma second_page:
  "iTexture (fst (getGlyph (requestFor 0x4E00) firstMiss)) = 1 \<and>
   \<not> cached (fst (getGlyph (requestFor 0x4E00) firstMiss))"
  unfolding firstMiss_val
  by (simp add: getGlyph_def getOrCreateAtlas_def va_getGlyph_def Let_def requestFor_def gs32
      reserveGlyph_def getOrCreatePage_def isLatin_cjk createMixedPage_def locationToInfo_def
      pageInfo_def newPage_def)

theorem getGlyph_miss_placeholder_witness:
  "\<not> cached (fst (getGlyph (requestFor 65) (newFontAtlas emptyFont True DEFAULT_CONFIG))) \<and>
   uvs (fst (getGlyph (requestFor 65) (newFontAtlas emptyFont True DEFAULT_CONFIG))) =
     \<lparr>u0 = Some 0, v0 = Some 0, u1 = Some 0, v1 = Some 0\<rparr> \<and>
   iGenSize (fst (getGlyph (requestFor 65) (newFontAtlas emptyFont True DEFAULT_CONFIG))) = Some 32 \<and>
   iTexture (fst (getGlyph (requestFor 65) (newFontAtlas emptyFont True DEFAULT_CONFIG))) = 0 \<and>
   \<not> cached (fst (getGlyph (requestFor 0x4E00) firstMiss)) \<and>
   uvs (fst (getGlyph (requestFor 0x4E00) firstMiss)) =
     \<lparr>u0 = Some 0, v0 = Some 0, u1 = Some 0, v1 = Some 0\<rparr> \<and>
   iGenSize (fst (getGlyph (requestFor 0x4E00) firstMiss)) = Some 32 \<and>
   iTexture (fst (getGlyph (requestFor 0x4E00) firstMiss)) = 1"
proof -
  let ?fa = "newFontAtlas emptyFont True DEFAULT_CONFIG"
  have ok: "fa_ok ?fa" by (simp add: fa_ok_new DEFAULT_CONFIG_def)
  have miss: "\<not> cached (fst (getGlyph (requestFor 65) ?fa))"
    by (simp add: eval_defs locationToInfo_def)
  have tex: "iTexture (fst (getGlyph (requestFor 65) ?fa)) = 0"
    by (simp add: eval_defs locationToInfo_def pageInfo_def newPage_def)
  have gs: "selectGenSize (config ?fa) (renderSize (requestFor 65)) = Some 32"
    by (simp add: newFontAtlas_def requestFor_def gs32)
  have gs2: "selectGenSize (config firstMiss) (renderSize (requestFor 0x4E00)) = Some 32"
    by (simp add: firstMiss_config requestFor_def gs32)
  show ?thesis
    using getGlyph_miss_placeholder [OF ok surjective_pairing miss]
      getGlyph_miss_placeholder [OF firstMiss_ok surjective_pairing conjunct2 [OF second_page]]
      miss tex gs gs2 second_page
    by simp
qed

section \<open>The page named at reservation and the page filled\<close>

text \<open>Evaluation of the example run on the small atlas, step by step.\<close>

lemmas run_defs = applyOps.simps applyOp.simps reserveGlyph_def getOrCreatePage_def
  isLatinChar_def LATIN_RANGES_def createMixedPage_def newPage_def newVariantAtlas_def
  fillGlyph_def tryAdd_def advanceShelf_def padding_def blit_one_row copyRow_eq
  setPage_def updateGlyphLocation_def pageInfo_def Let_def boxMetrics_def PLACEHOLDER_METRICS_def

lemma cjkA_val:
  "cjkA = (1, \<lparr>variantId = ''cjk'', genSize = Some 1, latinPage = None,
      mixedPages = [newPage 3 3 0],
      glyphIndex = [0x4E00 \<mapsto> \<lparr>locPage = \<lparr>pTexture = 0, pWidth = 3, pHeight = 3\<rparr>, locX = 0, locY = 0,
         locWidth = 0, locHeight = 0, locMetrics = PLACEHOLDER_METRICS, locEmpty = False,
         locMissing = False\<rparr>],
      pendingGlyphs = {0x4E00}, pageSize = 3, maxMixedPages = 8\<rparr>)"
  by (simp add: cjkA_def run_defs)

lemma cjkLocB_val: "pTexture (locPage cjkLocB) = 0"
  by (simp add: cjkLocB_def cjkA_val run_defs)


lemma cjkB_val:
  "snd (reserveGlyph 0x4E01 (fst cjkA) (snd cjkA)) = (1, \<lparr>variantId = ''cjk'', genSize = Some 1, latinPage = None,
      mixedPages = [newPage 3 3 0],
      glyphIndex = [0x4E00 \<mapsto> \<lparr>locPage = \<lparr>pTexture = 0, pWidth = 3, pHeight = 3\<rparr>, locX = 0, locY = 0,
         locWidth = 0, locHeight = 0, locMetrics = PLACEHOLDER_METRICS, locEmpty = False,
         locMissing = False\<rparr>, 0x4E01 \<mapsto> \<lparr>locPage = \<lparr>pTexture = 0, pWidth = 3, pHeight = 3\<rparr>, locX = 0, locY = 0,
         locWidth = 0, locHeight = 0, locMetrics = PLACEHOLDER_METRICS, locEmpty = False,
         locMissing = False\<rparr>],
      pendingGlyphs = {0x4E01, 0x4E00}, pageSize = 3, maxMixedPages = 8\<rparr>)"
  by (simp add: cjkA_val run_defs)


lemma cjkFull_val:
  "cjkFull = (1, \<lparr>variantId = ''cjk'', genSize = Some 1, latinPage = None,
      mixedPages = [\<lparr>width = 3, height = 3,
       buffer = [255, 255, 255, 255, 255, 255, 255, 255] @ replicate 28 0,
       texture = 0, cursorX = 3, cursorY = 0, rowHeight = 2, dirty = True\<rparr>],
      glyphIndex = [0x4E00 \<mapsto> \<lparr>locPage = \<lparr>pTexture = 0, pWidth = 3, pHeight = 3\<rparr>, locX = 0, locY = 0,
         locWidth = 2, locHeight = 1, locMetrics = boxMetrics 2 1, locEmpty = False,
         locMissing = False\<rparr>, 0x4E01 \<mapsto> \<lparr>locPage = \<lparr>pTexture = 0, pWidth = 3, pHeight = 3\<rparr>, locX = 0, locY = 0,
         locWidth = 0, locHeight = 0, locMetrics = PLACEHOLDER_METRICS, locEmpty = False,
         locMissing = False\<rparr>],
      pendingGlyphs = {0x4E01}, pageSize = 3, maxMixedPages = 8\<rparr>)"
  unfolding cjkFull_def cjkB_val
  by (simp add: run_defs fun_upd_twist insert_Diff_if)


lemma latinTwo_val:
  "latinTwo = (1, \<lparr>variantId = ''latin'', genSize = Some 1,
      latinPage = Some (newPage 3 3 0), mixedPages = [],
      glyphIndex = [65 \<mapsto> \<lparr>locPage = \<lparr>pTexture = 0, pWidth = 3, pHeight = 3\<rparr>, locX = 0, locY = 0,
         locWidth = 0, locHeight = 0, locMetrics = PLACEHOLDER_METRICS, locEmpty = False,
         locMissing = False\<rparr>, 66 \<mapsto> \<lparr>locPage = \<lparr>pTexture = 0, pWidth = 3, pHeight = 3\<rparr>, locX = 0, locY = 0,
         locWidth = 0, locHeight = 0, locMetrics = PLACEHOLDER_METRICS, locEmpty = False,
         locMissing = False\<rparr>],
      pendingGlyphs = {66, 65}, pageSize = 3, maxMixedPages = 8\<rparr>)"
  by (simp add: latinTwo_def latinVa_def run_defs)

lemma latinFill_ok:
  "fst (fillGlyph 65 [9, 9, 9, 9] (boxMetrics 1 1) (fst latinTwo) (snd latinTwo)) = None"
  unfolding latinTwo_val by (simp add: run_defs)


text \<open>
  C3, as the specification states it: the page named by the Location that
  \<^verbatim>\<open>reserveGlyph\<close> returns is the page into which the later \<^verbatim>\<open>fillGlyph\<close> writes. On
  the code this fails for a non-Latin code point: in the example run the Location handed
  out for U+4E01 names texture 0; the fill finds no room on that page, places the pixels
  on a fresh page (texture 1) and rewrites the Location's page to it.
\<close>

theorem latin_fill_keeps_page_counterexample:
  "pTexture (locPage cjkLocB) = 0 \<and> fst cjkFillB = None \<and>
   map_option (pTexture \<circ> locPage) (glyphIndex (snd (snd cjkFillB)) 0x4E01) = Some 1 \<and>
   map (\<lambda>p. (texture p, take 4 (buffer p))) (mixedPages (snd (snd cjkFillB))) =
     [(0, [255, 255, 255, 255]), (1, [9, 9, 9, 9])]"
  unfolding cjkFillB_def cjkFull_val
  by (simp add: cjkLocB_val run_defs)

text \<open>
  C3, amended. For a Latin code point the page named by the Location that
  \<^verbatim>\<open>reserveGlyph\<close> returns is the page into which a later successful \<^verbatim>\<open>fillGlyph\<close>
  writes the pixels, whatever operations of the atlas come in between: the fill places
  the glyph on the Latin page, whose texture is the one handed out at reservation,
  touches no mixed page, creates no texture, and the Location still names that texture.
  (For a non-Latin code point \<^verbatim>\<open>fillGlyph\<close> writes the page that received the pixels
  into the Location, and that page may differ from the one named at reservation.)
\<close>

theorem latin_fill_keeps_page:
  assumes "isLatinChar cp"
    and "reserveGlyph cp n va = (loc, n1, va1)"
    and "applyOps ops (n1, va1) = (n2, va2)"
    and "fillGlyph cp pixels m n2 va2 = (None, n3, va3)"
  shows "\<exists>p. latinPage va2 = Some p \<and> texture p = pTexture (locPage loc) \<and>
             fst (tryAdd p pixels (mWidth m) (mHeight m)) \<noteq> None \<and>
             latinPage va3 = Some (snd (tryAdd p pixels (mWidth m) (mHeight m))) \<and>
             mixedPages va3 = mixedPages va2 \<and> n3 = n2 \<and>
             map_option (pTexture \<circ> locPage) (glyphIndex va3 cp) = Some (pTexture (locPage loc))"
proof -
  let ?tx = "pTexture (locPage loc)"
  from reserveGlyph_latin [OF assms(1,2)]
  have "latinTexture (snd (n1, va1)) = Some ?tx" and "cp \<in> dom (glyphIndex (snd (n1, va1)))"
    by simp_all
  from applyOps_stable [OF this, of ops] assms(3)
  have lt: "latinTexture va2 = Some ?tx" and d: "cp \<in> dom (glyphIndex va2)" by simp_all
  from lt obtain p where p: "latinPage va2 = Some p" and tp: "texture p = ?tx"
    by (auto simp: latinTexture_def)
  from d obtain l where l: "glyphIndex va2 cp = Some l" by auto
  have g: "getOrCreatePage (isLatinChar cp) (Some (mHeight m)) n2 va2 = (LatinSel, p, n2, va2)"
    using assms(1) p by (simp add: getOrCreatePage_def)
  obtain pos p' where t: "tryAdd p pixels (mWidth m) (mHeight m) = (pos, p')"
    by (cases "tryAdd p pixels (mWidth m) (mHeight m)") auto
  from fillGlyph_unfold [OF g t] assms(1,4) obtain ps where
    pos: "pos = Some ps" and n: "n3 = n2" and
    va3: "va3 = updateGlyphLocation cp p' ps m (setPage LatinSel p' va2)"
    by (cases pos) auto
  have "map_option (pTexture \<circ> locPage) (glyphIndex va3 cp) = Some (texture p')"
    using l by (simp add: va3 updateGlyphLocation_def pageInfo_def)
  with tryAdd_frame [OF t] tp p t pos n va3 show ?thesis by simp
qed

theorem latin_fill_keeps_page_witness:
  "isLatinChar 65 \<and>
   fst (fillGlyph 65 [9, 9, 9, 9] (boxMetrics 1 1) (fst latinTwo) (snd latinTwo)) = None \<and>
   map_option (pTexture \<circ> locPage)
     (glyphIndex (snd (snd (fillGlyph 65 [9, 9, 9, 9] (boxMetrics 1 1) (fst latinTwo)
        (snd latinTwo)))) 65)
     = Some (pTexture (locPage (fst (reserveGlyph 65 0 latinVa))))"
proof -
  let ?f = "fillGlyph 65 [9, 9, 9, 9] (boxMetrics 1 1) (fst latinTwo) (snd latinTwo)"
  have l: "isLatinChar 65" by (simp add: isLatinChar_def LATIN_RANGES_def)
  have r: "reserveGlyph 65 0 latinVa
             = (fst (reserveGlyph 65 0 latinVa), fst (snd (reserveGlyph 65 0 latinVa)),
                snd (snd (reserveGlyph 65 0 latinVa)))"
    by simp
  have a: "applyOps [OpReserve 66]
             (fst (snd (reserveGlyph 65 0 latinVa)), snd (snd (reserveGlyph 65 0 latinVa)))
             = (fst latinTwo, snd latinTwo)"
    by (simp add: latinTwo_def)
  have f: "?f = (None, fst (snd ?f), snd (snd ?f))"
    using latinFill_ok by (metis prod.collapse)
  from latin_fill_keeps_page [OF l r a f] l latinFill_ok show ?thesis by auto
qed

section \<open>Rectangles and pages\<close>

lemma va_sized_iff:
  "va_sized va =
     ((\<forall>p. latinPage va = Some p \<longrightarrow> width p = pageSize va \<and> height p = pageSize va) \<and>
      list_all (\<lambda>p. width p = pageSize va \<and> height p = pageSize va) (mixedPages va))"
  by (simp add: va_sized_def split: option.splits)

lemma va_sized_cong:
  "pageSize va' = pageSize va \<Longrightarrow> latinPage va' = latinPage va \<Longrightarrow>
   mixedPages va' = mixedPages va \<Longrightarrow> va_sized va' = va_sized va"
  by (simp add: va_sized_iff split: option.splits)

lemma va_sized_simps [simp]:
  "va_sized (updateGlyphLocation cp page pos m va) = va_sized va"
  "va_sized (snd (storeGlyph cp page pos m va)) = va_sized va"
  "va_sized (markEmpty cp mi va) = va_sized va"
  by (rule va_sized_cong; simp)+

lemma va_sized_flush [simp]: "va_sized (flushDirtyPages va) = va_sized va"
  by (cases "latinPage va")
     (simp_all add: va_sized_iff flushDirtyPages_def list.pred_map comp_def)

lemma list_all_update: "list_all P xs \<Longrightarrow> P p \<Longrightarrow> list_all P (xs[i := p])"
  by (induction xs arbitrary: i) (auto split: nat.splits)

lemma va_sized_setPage:
  "va_sized va \<Longrightarrow> width p = pageSize va \<Longrightarrow> height p = pageSize va \<Longrightarrow>
     va_sized (setPage sel p va)"
  by (cases sel) (simp_all add: va_sized_iff setPage_def list_all_update split: option.splits)

lemma va_sized_getOrCreatePage:
  assumes "va_sized va" and "getOrCreatePage isL gh n va = (sel, page, n1, va1)"
  shows "va_sized va1 \<and> width page = pageSize va \<and> height page = pageSize va"
  using assms
  by (auto simp: getOrCreatePage_def va_sized_iff createMixedPage_def newPage_def Let_def
      list_all_iff split: if_splits option.splits dest: firstFit_page)

lemma allInside_upd:
  "allInside va \<Longrightarrow> rectInside l \<Longrightarrow> allInside (va\<lparr>glyphIndex := (glyphIndex va)(cp \<mapsto> l)\<rparr>)"
  by (simp add: allInside_def)

lemma allInside_cong: "glyphIndex va' = glyphIndex va \<Longrightarrow> allInside va' = allInside va"
  by (simp add: allInside_def)

lemma rectInside_empty:
  "rectInside l \<Longrightarrow>
     rectInside (l\<lparr>locEmpty := e, locMissing := mi, locWidth := 0, locHeight := 0\<rparr>)"
  by (simp add: rectInside_def)

lemma allInside_markEmpty:
  assumes "allInside va"
  shows "allInside (markEmpty cp mi va)"
proof (cases "glyphIndex va cp")
  case None
  with assms show ?thesis by (simp add: allInside_def markEmpty_def)
next
  case (Some l)
  with assms have "rectInside l" by (simp add: allInside_def)
  from rectInside_empty [OF this] assms Some show ?thesis
    by (simp add: allInside_def markEmpty_def)
qed

lemma allInside_flush [simp]: "allInside (flushDirtyPages va) = allInside va"
  by (rule allInside_cong) simp

lemma allInside_setPage [simp]: "allInside (setPage sel p va) = allInside va"
  by (rule allInside_cong) simp

text \<open>A placement that fits the page's width records a rectangle inside the page.\<close>

lemma placed_inside:
  assumes "tryAdd page pixels (mWidth m) (mHeight m) = (Some pos, page')"
    and "mWidth m \<le> width page"
  shows "fst pos + mWidth m \<le> pWidth (pageInfo page') \<and>
         snd pos + mHeight m \<le> pHeight (pageInfo page')"
proof -
  from assms(1) have "tryAdd page pixels (mWidth m) (mHeight m) = (Some (fst pos, snd pos), page')"
    by simp
  from tryAdd_inside [OF this] tryAdd_frame [OF this] assms(2) show ?thesis
    by (simp add: pageInfo_def)
qed

lemma allInside_update:
  assumes "allInside va"
    and "fst pos + mWidth m \<le> pWidth (pageInfo page') \<and>
         snd pos + mHeight m \<le> pHeight (pageInfo page')"
  shows "allInside (updateGlyphLocation cp page' pos m va)"
    and "allInside (snd (storeGlyph cp page' pos m va))"
  using assms
  by (auto simp: allInside_def updateGlyphLocation_def storeGlyph_def rectInside_def Let_def
      split: option.splits if_splits)

lemma inv_retryFresh:
  assumes "va_sized va" and "allInside va" and "mWidth m \<le> pageSize va"
  shows "va_sized (snd (snd (retryFresh cp pixels m n va))) \<and>
         allInside (snd (snd (retryFresh cp pixels m n va)))"
    and "va_sized (snd (snd (retryFreshStore cp pixels m n va))) \<and>
         allInside (snd (snd (retryFreshStore cp pixels m n va)))"
proof -
  let ?fresh = "newPage (pageSize va) (pageSize va) n"
  let ?placed = "tryAdd ?fresh pixels (mWidth m) (mHeight m)"
  let ?va' = "va\<lparr>mixedPages := mixedPages va @ [snd ?placed]\<rparr>"
  have w: "width ?fresh = pageSize va" "height ?fresh = pageSize va" by (simp_all add: newPage_def)
  from tryAdd_frame [of ?fresh pixels "mWidth m" "mHeight m" "fst ?placed" "snd ?placed"] w
  have w': "width (snd ?placed) = pageSize va" "height (snd ?placed) = pageSize va" by simp_all
  with assms(1) have s: "va_sized ?va'" by (simp add: va_sized_iff)
  from assms(2) have a: "allInside ?va'" by (simp add: allInside_def)
  have p: "fst np + mWidth m \<le> pWidth (pageInfo (snd ?placed)) \<and>
           snd np + mHeight m \<le> pHeight (pageInfo (snd ?placed))"
    if "fst ?placed = Some np" for np
    using placed_inside [of ?fresh pixels m np "snd ?placed"] that assms(3) w
    by (simp add: prod_eq_iff)
  show "va_sized (snd (snd (retryFresh cp pixels m n va))) \<and>
        allInside (snd (snd (retryFresh cp pixels m n va)))"
    using s a p allInside_update(1) [OF a]
    by (simp add: retryFresh_def Let_def split: option.splits)
  show "va_sized (snd (snd (retryFreshStore cp pixels m n va))) \<and>
        allInside (snd (snd (retryFreshStore cp pixels m n va)))"
    using s a p allInside_update(2) [OF a]
    by (simp add: retryFreshStore_def Let_def split: option.splits)
qed

lemma inv_fillGlyph:
  assumes "va_sized va" and "allInside va" and "mWidth m \<le> pageSize va"
  shows "va_sized (snd (snd (fillGlyph cp pixels m n va))) \<and>
         allInside (snd (snd (fillGlyph cp pixels m n va))) \<and>
         pageSize (snd (snd (fillGlyph cp pixels m n va))) = pageSize va"
proof -
  obtain sel page n1 va1 where
    g: "getOrCreatePage (isLatinChar cp) (Some (mHeight m)) n va = (sel, page, n1, va1)"
    by (cases "getOrCreatePage (isLatinChar cp) (Some (mHeight m)) n va") auto
  obtain pos page' where t: "tryAdd page pixels (mWidth m) (mHeight m) = (pos, page')"
    by (cases "tryAdd page pixels (mWidth m) (mHeight m)") auto
  note sz = va_sized_getOrCreatePage [OF assms(1) g] and fr = getOrCreatePage_frame [OF g]
  from sz tryAdd_frame [OF t] fr
  have s2: "va_sized (setPage sel page' va1)" by (simp add: va_sized_setPage)
  from assms(2) fr have a2: "allInside (setPage sel page' va1)" by (simp add: allInside_def)
  from fr have ps: "pageSize (setPage sel page' va1) = pageSize va" by simp
  note u = fillGlyph_unfold [OF g t]
  show ?thesis
  proof (cases pos)
    case (Some p)
    from placed_inside [OF t [unfolded Some]] assms(3) sz
    have "fst p + mWidth m \<le> pWidth (pageInfo page') \<and>
          snd p + mHeight m \<le> pHeight (pageInfo page')" by simp
    from allInside_update(1) [OF a2 this] s2 ps u Some show ?thesis by simp
  next
    case None
    from inv_retryFresh(1) [OF s2 a2, of m cp pixels n1] assms(3) ps
      retryFresh_frame [of cp pixels m n1 "setPage sel page' va1"]
    have "va_sized (snd (snd (retryFresh cp pixels m n1 (setPage sel page' va1)))) \<and>
          allInside (snd (snd (retryFresh cp pixels m n1 (setPage sel page' va1)))) \<and>
          pageSize (snd (snd (retryFresh cp pixels m n1 (setPage sel page' va1)))) = pageSize va"
      by (cases "retryFresh cp pixels m n1 (setPage sel page' va1)") auto
    with s2 a2 ps u None show ?thesis by simp
  qed
qed

lemma inv_addGlyph:
  assumes "va_sized va" and "allInside va" and "mWidth m \<le> pageSize va"
  shows "va_sized (snd (snd (addGlyph cp pixels m n va))) \<and>
         allInside (snd (snd (addGlyph cp pixels m n va))) \<and>
         pageSize (snd (snd (addGlyph cp pixels m n va))) = pageSize va"
proof -
  obtain sel page n1 va1 where
    g: "getOrCreatePage (isLatinChar cp) (Some (mHeight m)) n va = (sel, page, n1, va1)"
    by (cases "getOrCreatePage (isLatinChar cp) (Some (mHeight m)) n va") auto
  obtain pos page' where t: "tryAdd page pixels (mWidth m) (mHeight m) = (pos, page')"
    by (cases "tryAdd page pixels (mWidth m) (mHeight m)") auto
  note sz = va_sized_getOrCreatePage [OF assms(1) g] and fr = getOrCreatePage_frame [OF g]
  from sz tryAdd_frame [OF t] fr
  have s2: "va_sized (setPage sel page' va1)" by (simp add: va_sized_setPage)
  from assms(2) fr have a2: "allInside (setPage sel page' va1)" by (simp add: allInside_def)
  from fr have ps: "pageSize (setPage sel page' va1) = pageSize va" by simp
  note u = addGlyph_unfold [OF g t]
  show ?thesis
  proof (cases pos)
    case (Some p)
    from placed_inside [OF t [unfolded Some]] assms(3) sz
    have "fst p + mWidth m \<le> pWidth (pageInfo page') \<and>
          snd p + mHeight m \<le> pHeight (pageInfo page')" by simp
    from allInside_update(2) [OF a2 this] s2 ps u Some show ?thesis by simp
  next
    case None
    from inv_retryFresh(2) [OF s2 a2, of m cp pixels n1] assms(3) ps
      retryFreshStore_frame [of cp pixels m n1 "setPage sel page' va1"]
    have "va_sized (snd (snd (retryFreshStore cp pixels m n1 (setPage sel page' va1)))) \<and>
          allInside (snd (snd (retryFreshStore cp pixels m n1 (setPage sel page' va1)))) \<and>
          pageSize (snd (snd (retryFreshStore cp pixels m n1 (setPage sel page' va1)))) = pageSize va"
      by (cases "retryFreshStore cp pixels m n1 (setPage sel page' va1)") auto
    with s2 a2 ps u None show ?thesis by simp
  qed
qed

lemma inv_reserveGlyph:
  assumes "va_sized va" and "allInside va"
  shows "va_sized (snd (snd (reserveGlyph cp n va))) \<and>
         allInside (snd (snd (reserveGlyph cp n va))) \<and>
         pageSize (snd (snd (reserveGlyph cp n va))) = pageSize va"
proof -
  obtain sel page n1 va1 where
    g: "getOrCreatePage (isLatinChar cp) (genSize va) n va = (sel, page, n1, va1)"
    by (cases "getOrCreatePage (isLatinChar cp) (genSize va) n va") auto
  note sz = va_sized_getOrCreatePage [OF assms(1) g] and fr = getOrCreatePage_frame [OF g]
  from assms(2) fr have "allInside va1" by (simp add: allInside_def)
  with sz fr g show ?thesis
    by (simp add: reserveGlyph_def Let_def va_sized_iff allInside_def rectInside_def)
qed

text \<open>
  As long as no glyph wider than a page is placed, every recorded rectangle lies within
  its page, after any sequence of operations.
\<close>

lemma applyOps_inside:
  "va_sized va \<Longrightarrow> allInside va \<Longrightarrow> list_all (opFits (pageSize va)) ops \<Longrightarrow>
     allInside (snd (applyOps ops (n, va))) \<and> va_sized (snd (applyOps ops (n, va)))"
proof (induction ops arbitrary: n va)
  case Nil
  then show ?case by simp
next
  case (Cons opn ops)
  obtain n1 va1 where st: "applyOp opn (n, va) = (n1, va1)"
    by (cases "applyOp opn (n, va)") auto
  have "va_sized va1 \<and> allInside va1 \<and> pageSize va1 = pageSize va"
  proof (cases opn)
    case (OpReserve cp)
    with st inv_reserveGlyph [OF Cons.prems(1,2), of cp n] show ?thesis by simp
  next
    case (OpFill cp px m)
    with st Cons.prems(3) inv_fillGlyph [OF Cons.prems(1,2), of m cp px n] show ?thesis by simp
  next
    case (OpAdd cp px m)
    with st Cons.prems(3) inv_addGlyph [OF Cons.prems(1,2), of m cp px n] show ?thesis by simp
  next
    case (OpMarkEmpty cp mi)
    with st Cons.prems(1,2) show ?thesis by (auto simp: allInside_markEmpty)
  next
    case OpFlush
    with st Cons.prems(1,2) have "va1 = flushDirtyPages va" by simp
    with Cons.prems(1,2) show ?thesis by (simp add: flushDirtyPages_def va_sized_flush [unfolded flushDirtyPages_def] allInside_def)
  qed
  with Cons.IH [of va1 n1] Cons.prems(3) st show ?case by simp
qed

section \<open>A glyph wider than the page\<close>

text \<open>
  \<^verbatim>\<open>tryAdd\<close> tests the width only against the rest of the current shelf; after the shelf
  advance it does not test it again. A glyph wider than the whole page is therefore placed
  at \<open>x = 0\<close> and sticks out of the page, and its rows, longer than a row of the page,
  overwrite each other. For glyphs not wider than the page both properties hold: a
  position answered by \<^verbatim>\<open>tryAdd\<close> is inside the page exactly when \<open>w \<le> W\<close> (lemma
  \<open>tryAdd_inside\<close>), every recorded rectangle stays within its page over any sequence of
  operations (lemma \<open>applyOps_inside\<close>), and the blit is the flipped copy that leaves all
  other bytes alone (lemma \<open>tryAdd_blit\<close>).
\<close>

text \<open>
  C2. The recorded rectangle of a cached code point lies within its page, and a position
  answered by \<^verbatim>\<open>tryAdd\<close> means the glyph lies inside the page. The code at a glyph of
  5 by 1 on a page of 4 by 4: \<^verbatim>\<open>tryAdd\<close> answers the position (0, 1), and the atlas
  records \<open>x = 0\<close>, \<open>width = 5\<close> on a page of width 4.
\<close>

theorem wide_glyph_sticks_out:
  "fst (tryAdd (newPage 4 4 0) (replicate 20 255) 5 1) = Some (0, 1) \<and>
   width (snd (tryAdd (newPage 4 4 0) (replicate 20 255) 5 1)) = 4 \<and>
   map_option (\<lambda>l. (locX l, locWidth l, pWidth (locPage l))) (glyphIndex (snd wideRun) 0x4E00)
     = Some (0, 5, 4)"
  by (simp add: wideRun_def run_defs)

lemma upt_0_2: "[0..<2] = [0, Suc 0]"
  by (simp add: numeral_2_eq_2)

lemma replicate_32:
  "replicate 32 (0::byte) = [0, 0, 0, 0, 0, 0, 0, 0, 0, 0, 0, 0, 0, 0, 0, 0, 0, 0, 0, 0, 0, 0, 0,
     0, 0, 0, 0, 0, 0, 0, 0, 0]"
  by (simp add: eval_nat_numeral)

text \<open>
  C5. After a successful \<^verbatim>\<open>tryAdd\<close> the buffer holds source row \<open>r\<close> at destination row
  \<open>h - 1 - r\<close>, byte for byte. The code at a glyph of 3 by 2 (bytes 1 to 24) on a page 2
  wide and 4 high: the call succeeds at (0, 1); source row 0 is written at offset 16 and
  then source row 1, written at offset 8 and 12 bytes long, overwrites its first four
  bytes, so the byte at offset 16 is 21 and not the first source byte.
\<close>

theorem wide_glyph_rows_overlap:
  "fst (tryAdd (newPage 2 4 0) widePixels 3 2) = Some (0, 1) \<and>
   buffer (snd (tryAdd (newPage 2 4 0) widePixels 3 2)) =
     [0, 0, 0, 0, 0, 0, 0, 0, 13, 14, 15, 16, 17, 18, 19, 20, 21, 22, 23, 24, 5, 6, 7, 8, 9, 10,
      11, 12, 0, 0, 0, 0] \<and>
   buffer (snd (tryAdd (newPage 2 4 0) widePixels 3 2)) ! (((1 + (2 - 1 - 0)) * 2 + 0) * 4 + 0)
     \<noteq> widePixels ! ((0 * 3) * 4 + 0)"
proof -
  have b: "buffer (snd (tryAdd (newPage 2 4 0) widePixels 3 2)) =
     [0, 0, 0, 0, 0, 0, 0, 0, 13, 14, 15, 16, 17, 18, 19, 20, 21, 22, 23, 24, 5, 6, 7, 8, 9, 10,
      11, 12, 0, 0, 0, 0]"
    by (simp add: tryAdd_def advanceShelf_def padding_def newPage_def Let_def blit_def copyRow_eq
        widePixels_def upt_0_2 replicate_32)
  have p: "fst (tryAdd (newPage 2 4 0) widePixels 3 2) = Some (0, 1)"
    by (simp add: tryAdd_def advanceShelf_def padding_def newPage_def Let_def)
  have "buffer (snd (tryAdd (newPage 2 4 0) widePixels 3 2)) ! (((1 + (2 - 1 - 0)) * 2 + 0) * 4 + 0)
          = 21"
    unfolding b by simp
  moreover have "widePixels ! ((0 * 3) * 4 + 0) = 1" by (simp add: widePixels_def)
  ultimately show ?thesis using b p by simp
qed

section \<open>fillGlyph when the selected page has no room\<close>

text \<open>
  C6. Suppose the first \<^verbatim>\<open>tryAdd\<close> of \<^verbatim>\<open>fillGlyph\<close>, on the page selected for the glyph,
  answers "no fit". For a Latin code point the call fails at once with the Latin-page
  error, and no page or texture is created after the selection. For a non-Latin code point
  exactly one fresh mixed page is created (one more texture, one more mixed page, appended
  last) and the placement is retried on it; the call fails with the fresh-page error
  exactly when that retry finds no fit, and succeeds otherwise.
\<close>

theorem fillGlyph_no_fit:
  assumes "getOrCreatePage (isLatinChar cp) (Some (mHeight m)) n va = (sel, page, n1, va1)"
    and "tryAdd page pixels (mWidth m) (mHeight m) = (None, page')"
    and "fillGlyph cp pixels m n va = (r, n', va')"
  shows "(isLatinChar cp \<longrightarrow>
            r = Some LatinPageFull \<and> n' = n1 \<and> latinPage va' = Some page' \<and>
            mixedPages va' = mixedPages va1) \<and>
         (\<not> isLatinChar cp \<longrightarrow>
            n' = Suc n1 \<and> latinPage va' = latinPage va1 \<and>
            mixedPages va' = mixedPages (setPage sel page' va1) @
              [snd (tryAdd (newPage (pageSize va) (pageSize va) n1) pixels (mWidth m) (mHeight m))] \<and>
            (r = Some FreshPageOverflow \<longleftrightarrow>
               fst (tryAdd (newPage (pageSize va) (pageSize va) n1) pixels (mWidth m) (mHeight m))
                 = None) \<and>
            (r \<noteq> Some FreshPageOverflow \<longrightarrow> r = None))"
proof (cases "isLatinChar cp")
  case True
  with assms(1) have gl: "getOrCreatePage True (Some (mHeight m)) n va = (sel, page, n1, va1)"
    by simp
  from getOrCreatePage_latin [OF gl] fillGlyph_unfold [OF assms(1,2)] assms(3) True
  show ?thesis by auto
next
  case False
  with assms(1) have gm: "getOrCreatePage False (Some (mHeight m)) n va = (sel, page, n1, va1)"
    by simp
  let ?placed = "tryAdd (newPage (pageSize va) (pageSize va) n1) pixels (mWidth m) (mHeight m)"
  from getOrCreatePage_frame [OF assms(1)] have ps: "pageSize va1 = pageSize va" by simp
  from getOrCreatePage_mixed [OF gm] obtain i where sel: "sel = MixedSel i" by auto
  from fillGlyph_unfold [OF assms(1,2)] assms(3) False
  have rf: "retryFresh cp pixels m n1 (setPage sel page' va1) = (r, n', va')" by simp
  show ?thesis
  proof (cases "fst ?placed")
    case None
    with rf ps have "r = Some FreshPageOverflow" "n' = Suc n1"
      "va' = (setPage sel page' va1)\<lparr>mixedPages := mixedPages (setPage sel page' va1) @ [snd ?placed]\<rparr>"
      by (simp_all add: retryFresh_def Let_def)
    with False None sel show ?thesis by simp
  next
    case (Some np)
    with rf ps have "r = None" "n' = Suc n1"
      "va' = updateGlyphLocation cp (snd ?placed) np m
         ((setPage sel page' va1)\<lparr>mixedPages := mixedPages (setPage sel page' va1) @ [snd ?placed]\<rparr>)"
      by (simp_all add: retryFresh_def Let_def)
    with False Some sel show ?thesis by simp
  qed
qed

theorem fillGlyph_no_fit_witness:
  "fst (fillGlyph 65 [9, 9, 9, 9] (boxMetrics 1 1) 0 tinyVa) = Some LatinPageFull \<and>
   fst (snd (fillGlyph 65 [9, 9, 9, 9] (boxMetrics 1 1) 0 tinyVa)) = 1 \<and>
   mixedPages (snd (snd (fillGlyph 65 [9, 9, 9, 9] (boxMetrics 1 1) 0 tinyVa))) = [] \<and>
   fst cjkFillB = None \<and> fst (snd cjkFillB) = 2 \<and>
   length (mixedPages (snd (snd cjkFillB))) = 2"
proof -
  let ?m = "boxMetrics 1 1"
  let ?f = "fillGlyph 65 [9, 9, 9, 9] ?m 0 tinyVa"
  have g1: "getOrCreatePage (isLatinChar 65) (Some (mHeight ?m)) 0 tinyVa
              = (LatinSel, newPage 1 1 0, 1, tinyVa\<lparr>latinPage := Some (newPage 1 1 0)\<rparr>)"
    by (simp add: tinyVa_def run_defs)
  have t1: "tryAdd (newPage 1 1 0) [9, 9, 9, 9] (mWidth ?m) (mHeight ?m)
              = (None, (newPage 1 1 0)\<lparr>cursorY := 1\<rparr>)"
    by (simp add: run_defs)
  have f1: "?f = (fst ?f, fst (snd ?f), snd (snd ?f))" by simp
  have l: "isLatinChar 65" by (simp add: isLatinChar_def LATIN_RANGES_def)
  note a = fillGlyph_no_fit [OF g1 t1 f1]
  let ?p0 = "\<lparr>width = 3, height = 3,
       buffer = [255, 255, 255, 255, 255, 255, 255, 255] @ replicate 28 0,
       texture = 0, cursorX = 3, cursorY = 0, rowHeight = 2, dirty = True\<rparr>"
  have g2: "getOrCreatePage (isLatinChar 0x4E01) (Some (mHeight ?m)) (fst cjkFull) (snd cjkFull)
              = (MixedSel 0, ?p0, 1, snd cjkFull)"
    unfolding cjkFull_val by (simp add: run_defs)
  have t2: "tryAdd ?p0 [9, 9, 9, 9] (mWidth ?m) (mHeight ?m)
              = (None, ?p0\<lparr>cursorY := 3, cursorX := 0, rowHeight := 0\<rparr>)"
    by (simp add: run_defs)
  have f2: "fillGlyph 0x4E01 [9, 9, 9, 9] ?m (fst cjkFull) (snd cjkFull)
              = (fst cjkFillB, fst (snd cjkFillB), snd (snd cjkFillB))"
    by (simp add: cjkFillB_def)
  have nl: "\<not> isLatinChar 0x4E01" by (simp add: isLatinChar_def LATIN_RANGES_def)
  have fresh: "fst (tryAdd (newPage (pageSize (snd cjkFull)) (pageSize (snd cjkFull)) 1)
                 [9, 9, 9, 9] (mWidth ?m) (mHeight ?m)) \<noteq> None"
    unfolding cjkFull_val by (simp add: run_defs)
  note b = fillGlyph_no_fit [OF g2 t2 f2]
  have len: "length (mixedPages (snd cjkFull)) = 1" unfolding cjkFull_val by simp
  from a l b nl fresh len show ?thesis by (auto simp: tinyVa_def newVariantAtlas_def)
qed

section \<open>prefabLatin\<close>

lemma LATIN_CODEPOINTS_set:
  "set LATIN_CODEPOINTS = {0x30..0x39} \<union> {0x41..0x5A} \<union> {0x61..0x7A}"
proof -
  have "set LATIN_CODEPOINTS = {0x30..<0x3A} \<union> {0x41..<0x5B} \<union> {0x61..<0x7B}"
    by (simp add: LATIN_CODEPOINTS_def LATIN_RANGES_def Un_assoc del: upt_rec_numeral upt_Suc)
  also have "\<dots> = {0x30..0x39} \<union> {0x41..0x5A} \<union> {0x61..0x7A}"
    by auto
  finally show ?thesis .
qed

lemma LATIN_CODEPOINTS_length: "length LATIN_CODEPOINTS = 62"
  by (simp add: LATIN_CODEPOINTS_def LATIN_RANGES_def)

lemma isLatinChar_iff: "isLatinChar cp \<longleftrightarrow> cp \<in> {0x30..0x39} \<union> {0x41..0x5A} \<union> {0x61..0x7A}"
  by (auto simp: isLatinChar_def LATIN_RANGES_def)

lemma va_getGlyph_ready:
  "va_getGlyph va cp \<noteq> None \<longleftrightarrow> cp \<in> dom (glyphIndex va) \<and> cp \<notin> pendingGlyphs va"
  by (auto simp: va_getGlyph_def)

lemma ready_mono:
  assumes d: "dom (glyphIndex va') = insert cp (dom (glyphIndex va))"
    and p: "pendingGlyphs va' = pendingGlyphs va - {cp}"
  shows "va_getGlyph va' cp \<noteq> None \<and>
         (\<forall>c. va_getGlyph va c \<noteq> None \<longrightarrow> va_getGlyph va' c \<noteq> None)"
  unfolding va_getGlyph_ready d p by auto

lemma reserveGlyph_pending:
  assumes "reserveGlyph cp n va = (loc, n1, va1)"
  shows "pendingGlyphs va1 = insert cp (pendingGlyphs va)"
proof -
  obtain sel page k va' where
    g: "getOrCreatePage (isLatinChar cp) (genSize va) n va = (sel, page, k, va')"
    by (cases "getOrCreatePage (isLatinChar cp) (genSize va) n va") auto
  from getOrCreatePage_frame [OF g] assms g show ?thesis
    by (auto simp: reserveGlyph_def Let_def)
qed

lemma retryFreshStore_ok:
  assumes "retryFreshStore cp pixels m n va = (Inr loc, n', va')"
  shows "dom (glyphIndex va') = insert cp (dom (glyphIndex va)) \<and>
         pendingGlyphs va' = pendingGlyphs va - {cp}"
proof (cases "fst (tryAdd (newPage (pageSize va) (pageSize va) n) pixels (mWidth m) (mHeight m))")
  case None
  with assms show ?thesis by (simp add: retryFreshStore_def Let_def)
next
  case (Some np)
  with assms have "va' = snd (storeGlyph cp
      (snd (tryAdd (newPage (pageSize va) (pageSize va) n) pixels (mWidth m) (mHeight m))) np m
      (va\<lparr>mixedPages := mixedPages va @
        [snd (tryAdd (newPage (pageSize va) (pageSize va) n) pixels (mWidth m) (mHeight m))]\<rparr>))"
    by (simp add: retryFreshStore_def Let_def)
  then show ?thesis by simp
qed

lemma addGlyph_ok:
  assumes "addGlyph cp pixels m n va = (Inr loc, n', va')"
  shows "dom (glyphIndex va') = insert cp (dom (glyphIndex va)) \<and>
         pendingGlyphs va' = pendingGlyphs va - {cp}"
proof -
  obtain sel page n1 va1 where
    g: "getOrCreatePage (isLatinChar cp) (Some (mHeight m)) n va = (sel, page, n1, va1)"
    by (cases "getOrCreatePage (isLatinChar cp) (Some (mHeight m)) n va") auto
  obtain pos page' where t: "tryAdd page pixels (mWidth m) (mHeight m) = (pos, page')"
    by (cases "tryAdd page pixels (mWidth m) (mHeight m)") auto
  note u = addGlyph_unfold [OF g t]
  note fr = getOrCreatePage_frame [OF g]
  show ?thesis
  proof (cases pos)
    case (Some ps)
    with u assms have "va' = snd (storeGlyph cp page' ps m (setPage sel page' va1))" by simp
    with fr show ?thesis by simp
  next
    case None
    show ?thesis
    proof (cases "isLatinChar cp")
      case True
      with None u assms show ?thesis by simp
    next
      case False
      with None u assms
      have "retryFreshStore cp pixels m n1 (setPage sel page' va1) = (Inr loc, n', va')" by simp
      from retryFreshStore_ok [OF this] fr show ?thesis by simp
    qed
  qed
qed

text \<open>One iteration of the prefab loop that ends without an error leaves the code
  point in the index and out of the pending set, and keeps that for all others.\<close>

lemma prefabStep_ready:
  assumes "prefabStep gs fb axes cp (fa, atlas) = (None, fa', atlas')"
  shows "va_getGlyph atlas' cp \<noteq> None \<and>
         (\<forall>c. va_getGlyph atlas c \<noteq> None \<longrightarrow> va_getGlyph atlas' c \<noteq> None)"
proof (cases "va_getGlyph atlas cp \<noteq> None")
  case True
  with assms show ?thesis by (simp add: prefabStep_def)
next
  case notyet: False
  obtain glyph fa1 where gg: "generateGlyph cp gs fb axes fa = (glyph, fa1)"
    by (cases "generateGlyph cp gs fb axes fa") auto
  have viaReserve: ?thesis
    if r: "reserveGlyph cp k atlas = (loc, n, atlas1)" and a: "atlas' = markEmpty cp mi atlas1"
    for k loc n atlas1 mi
  proof (rule ready_mono)
    show "dom (glyphIndex atlas') = insert cp (dom (glyphIndex atlas))"
      using reserveGlyph_dom [OF r] a by simp
    show "pendingGlyphs atlas' = pendingGlyphs atlas - {cp}"
      using reserveGlyph_pending [OF r] a by simp
  qed
  show ?thesis
  proof (cases "hasGlyph (msdf fa) (msdfFont fa) cp")
    case False
    obtain loc n atlas1 where r: "reserveGlyph cp (textureCount fa) atlas = (loc, n, atlas1)"
      by (cases "reserveGlyph cp (textureCount fa) atlas") auto
    from assms notyet False r have "atlas' = markEmpty cp True atlas1"
      by (simp add: prefabStep_def Let_def)
    from viaReserve [OF r this] show ?thesis .
  next
    case True
    show ?thesis
    proof (cases glyph)
      case None
      obtain loc n atlas1 where r: "reserveGlyph cp (textureCount fa1) atlas = (loc, n, atlas1)"
        by (cases "reserveGlyph cp (textureCount fa1) atlas") auto
      from assms notyet True gg None r have "atlas' = markEmpty cp False atlas1"
        by (simp add: prefabStep_def Let_def)
      from viaReserve [OF r this] show ?thesis .
    next
      case (Some g)
      let ?px = "floatToRGBA (gPixels g) (msWidth (gMetrics g)) (msHeight (gMetrics g))"
      obtain res n atlas1 where
        ad: "addGlyph cp ?px (toMetrics (gMetrics g)) (textureCount fa1) atlas = (res, n, atlas1)"
        by (cases "addGlyph cp ?px (toMetrics (gMetrics g)) (textureCount fa1) atlas") auto
      from assms notyet True gg Some ad obtain loc where "res = Inr loc" and "atlas' = atlas1"
        by (cases res) (auto simp: prefabStep_def Let_def)
      with ad addGlyph_ok [of cp ?px "toMetrics (gMetrics g)" "textureCount fa1" atlas loc n atlas']
      show ?thesis
        by (intro ready_mono) simp_all
    qed
  qed
qed

lemma prefabLoop_ready:
  "prefabLoop gs fb axes cps (fa, atlas) = (None, fa', atlas') \<Longrightarrow>
     (\<forall>c \<in> set cps. va_getGlyph atlas' c \<noteq> None) \<and>
     (\<forall>c. va_getGlyph atlas c \<noteq> None \<longrightarrow> va_getGlyph atlas' c \<noteq> None)"
proof (induction cps arbitrary: fa atlas)
  case Nil
  then show ?case by simp
next
  case (Cons cp cps)
  obtain r1 fa1 atlas1 where p1: "prefabStep gs fb axes cp (fa, atlas) = (r1, fa1, atlas1)"
    by (cases "prefabStep gs fb axes cp (fa, atlas)") auto
  with Cons.prems have r1: "r1 = None" and rest: "prefabLoop gs fb axes cps (fa1, atlas1) = (None, fa', atlas')"
    by (cases r1; simp)+
  from prefabStep_ready [OF p1 [unfolded r1]] Cons.IH [OF rest] show ?case by auto
qed

lemma va_getGlyph_flush [simp]: "va_getGlyph (flushDirtyPages va) cp = va_getGlyph va cp"
  by (simp add: va_getGlyph_def)

lemma prefabStep_noGlyph:
  assumes "\<not> hasGlyph (msdf fa) (msdfFont fa) cp"
  shows "fst (prefabStep gs fb axes cp (fa, atlas)) = None \<and>
         msdf (fst (snd (prefabStep gs fb axes cp (fa, atlas)))) = msdf fa"
  using assms by (simp add: prefabStep_def Let_def case_prod_beta)

lemma prefabLoop_emptyFont:
  "msdf fa = emptyFont \<Longrightarrow> fst (prefabLoop gs fb axes cps (fa, atlas)) = None"
proof (induction cps arbitrary: fa atlas)
  case Nil
  then show ?case by simp
next
  case (Cons cp cps)
  from Cons.prems have "\<not> hasGlyph (msdf fa) (msdfFont fa) cp" by (simp add: emptyFont_def)
  from prefabStep_noGlyph [OF this, of gs fb axes atlas] Cons.prems
  obtain fa1 atlas1 where "prefabStep gs fb axes cp (fa, atlas) = (None, fa1, atlas1)"
    and "msdf fa1 = emptyFont"
    by (cases "prefabStep gs fb axes cp (fa, atlas)") auto
  with Cons.IH [of fa1 atlas1] show ?case by simp
qed

lemma prefabLatin_emptyFont:
  assumes "msdf fa = emptyFont"
  shows "fst (prefabLatin vid fontSize fb axes fa) = None"
proof -
  let ?gs = "selectGenSize (config fa) fontSize"
  obtain key atlas fa1 where g: "getOrCreateAtlas vid ?gs fa = (key, atlas, fa1)"
    by (cases "getOrCreateAtlas vid ?gs fa") auto
  from getOrCreateAtlas_sched [OF g] assms have "msdf fa1 = emptyFont"
    by (simp add: sameSched_def)
  from prefabLoop_emptyFont [OF this, of ?gs fb axes LATIN_CODEPOINTS atlas] g
  show ?thesis
    by (cases "prefabLoop ?gs fb axes LATIN_CODEPOINTS (fa1, atlas)")
       (simp add: prefabLatin_def Let_def)
qed

text \<open>
  C7. After \<^verbatim>\<open>prefabLatin(variantId, fontSize, fontBytes)\<close> has returned, \<^verbatim>\<open>getGlyph\<close>
  for any of the 62 Latin code points (0x30..0x39, 0x41..0x5A, 0x61..0x7A), the same
  variant and \<open>renderSize = fontSize\<close> answers \<open>cached = true\<close> and changes nothing;
  \<^verbatim>\<open>prefabLatin\<close> leaves the FIFO, the outstanding-drain marker and the number of
  callback invocations as they were.
\<close>

theorem prefabLatin_caches:
  assumes "prefabLatin vid fontSize fb axes fa = (None, fa')"
    and "codePoint request \<in> {0x30..0x39} \<union> {0x41..0x5A} \<union> {0x61..0x7A}"
    and "reqVariantId request = vid" and "renderSize request = fontSize"
  shows "cached (fst (getGlyph request fa')) \<and> snd (getGlyph request fa') = fa' \<and>
         faPendingGlyphs fa' = faPendingGlyphs fa \<and> batchPromise fa' = batchPromise fa \<and>
         readyCalls fa' = readyCalls fa"
proof -
  let ?gs = "selectGenSize (config fa) fontSize"
  obtain key atlas fa1 where g: "getOrCreateAtlas vid ?gs fa = (key, atlas, fa1)"
    by (cases "getOrCreateAtlas vid ?gs fa") auto
  then have key: "key = atlasKey vid ?gs"
    by (auto simp: getOrCreateAtlas_def Let_def split: option.splits)
  obtain r fa2 atlas' where
    l: "prefabLoop ?gs fb axes LATIN_CODEPOINTS (fa1, atlas) = (r, fa2, atlas')"
    by (cases "prefabLoop ?gs fb axes LATIN_CODEPOINTS (fa1, atlas)") auto
  from assms(1) g l have r: "r = None"
    and fa': "fa' = fa2\<lparr>atlases := (atlases fa2)(key \<mapsto> flushDirtyPages atlas')\<rparr>"
    by (cases r; simp add: prefabLatin_def Let_def)+
  from prefabLatin_sched [of fa vid fontSize fb axes] assms(1)
  have s: "sameSched fa fa'" by simp
  from assms(2) have "codePoint request \<in> set LATIN_CODEPOINTS"
    by (simp only: LATIN_CODEPOINTS_set)
  with prefabLoop_ready [OF l [unfolded r]]
  obtain loc where loc: "va_getGlyph atlas' (codePoint request) = Some loc" by auto
  have cfg: "config fa' = config fa" using s by (simp add: sameSched_def)
  have at: "atlases fa' (atlasKey (reqVariantId request)
              (selectGenSize (config fa') (renderSize request))) = Some (flushDirtyPages atlas')"
  proof -
    have "config fa2 = config fa" using cfg by (simp add: fa')
    then show ?thesis by (simp add: assms(3,4) fa' key)
  qed
  have "getGlyph request fa' =
          (locationToInfo loc (selectGenSize (config fa') (renderSize request)) True, fa')"
    using at loc by (simp add: getGlyph_def getOrCreateAtlas_def Let_def)
  with s show ?thesis by (simp add: locationToInfo_def sameSched_def Let_def)
qed

theorem prefabLatin_caches_witness:
  "fst (prefabLatin ''v'' 32 [] None firstMiss) = None \<and>
   cached (fst (getGlyph (requestFor 65) (snd (prefabLatin ''v'' 32 [] None firstMiss)))) \<and>
   cached (fst (getGlyph (requestFor 0x7A) (snd (prefabLatin ''v'' 32 [] None firstMiss)))) \<and>
   length (faPendingGlyphs (snd (prefabLatin ''v'' 32 [] None firstMiss))) = 1 \<and>
   readyCalls (snd (prefabLatin ''v'' 32 [] None firstMiss)) = 0"
proof -
  let ?p = "prefabLatin ''v'' 32 [] None firstMiss"
  have m: "msdf firstMiss = emptyFont" by (simp add: firstMiss_def eval_defs)
  have f: "fst ?p = None"
    using prefabLatin_emptyFont [OF m, of "''v''" 32 "[]" None] .
  then have e: "?p = (None, snd ?p)" by (metis prod.collapse)
  have q: "length (faPendingGlyphs firstMiss) = 1" "readyCalls firstMiss = 0"
    by (simp_all add: firstMiss_def eval_defs)
  from prefabLatin_caches [OF e, of "requestFor 65"] prefabLatin_caches [OF e, of "requestFor 0x7A"]
    f q
  show ?thesis by (simp add: requestFor_def)
qed

section \<open>The callback\<close>

text \<open>Evaluation of a drain on the two example states.\<close>

lemma gs32': "selectGenSize (DEFAULT_CONFIG\<lparr>cfgPageSize := k\<rparr>) 32 = Some 32"
  by (simp add: selectGenSize_def DEFAULT_CONFIG_def nthOpt_def)

lemma dotRGBA: "floatToRGBA [1, 0, 0, 1] (Suc 0) (Suc 0) = [255, 0, 0, 255]"
  by (simp add: floatToRGBA_def toByte_def u8set_def eval_nat_numeral)

lemma pageMiss_val:
  "snd (getGlyph (requestFor 65) (newFontAtlas dotFont True (DEFAULT_CONFIG\<lparr>cfgPageSize := k\<rparr>))) =
    \<lparr>msdf = dotFont, msdfFont = None, msdfAxes = [], textureCount = 1,
     config = DEFAULT_CONFIG\<lparr>cfgPageSize := k\<rparr>,
     atlases = [atlasKey ''v'' (Some 32) \<mapsto>
       \<lparr>variantId = ''v'', genSize = Some 32, latinPage = Some (newPage k k 0), mixedPages = [],
        glyphIndex = [65 \<mapsto> \<lparr>locPage = \<lparr>pTexture = 0, pWidth = k, pHeight = k\<rparr>, locX = 0,
           locY = 0, locWidth = 0, locHeight = 0, locMetrics = PLACEHOLDER_METRICS,
           locEmpty = False, locMissing = False\<rparr>],
        pendingGlyphs = {65}, pageSize = k, maxMixedPages = 8\<rparr>],
     onGlyphsReady = True, readyCalls = 0, faPendingGlyphs = [pendingA], batchPromise = True\<rparr>"
  by (simp add: eval_defs gs32' pendingA_def pageInfo_def newPage_def default_fields)


lemma isLatin65: "isLatinChar 65"
  by (simp add: isLatinChar_def LATIN_RANGES_def)

lemmas drain_defs = processBatch_def processPending_def getOrCreateAtlas_def pendingA_def
  dotFont_def Let_def generateGlyph_def dotGlyph_def dotRGBA toMetrics_def putAtlas_def
  default_fields fillGlyph_def getOrCreatePage_def isLatin65 tryAdd_def advanceShelf_def
  padding_def newPage_def setPage_def updateGlyphLocation_def pageInfo_def blit_one_row
  copyRow_eq notify_def flushAll_def flushDirtyPages_def flush_def

text \<open>
  C9, as the specification states it: the callback is invoked exactly once per drain whose
  snapshot was not empty. On the code this fails for a drain that a fatal fill error
  aborts: with pages of one pixel the drain of the request for \<open>A\<close> has a snapshot of one
  entry and a callback, ends with the Latin-page error, and the callback count is what it
  was.
\<close>

theorem onGlyphsReady_once_counterexample:
  "faPendingGlyphs tinyMiss \<noteq> [] \<and> onGlyphsReady tinyMiss \<and>
   fst (processBatch tinyMiss) = Some LatinPageFull \<and>
   readyCalls (snd (processBatch tinyMiss)) = readyCalls tinyMiss"
  unfolding tinyMiss_def pageMiss_val
  by (simp add: drain_defs)

text \<open>
  C9, amended. A drain whose snapshot was not empty and that runs to its end invokes a
  configured callback exactly once; a drain that a fatal error aborts does not invoke it;
  a drain whose snapshot was empty does not invoke it; \<^verbatim>\<open>prefabLatin\<close> never invokes it.
\<close>

theorem onGlyphsReady_once:
  "(faPendingGlyphs fa \<noteq> [] \<and> onGlyphsReady fa \<and> fst (processBatch fa) = None \<longrightarrow>
      readyCalls (snd (processBatch fa)) = Suc (readyCalls fa)) \<and>
   (fst (processBatch fa) \<noteq> None \<longrightarrow> readyCalls (snd (processBatch fa)) = readyCalls fa) \<and>
   (faPendingGlyphs fa = [] \<longrightarrow> readyCalls (snd (processBatch fa)) = readyCalls fa) \<and>
   readyCalls (snd (prefabLatin vid fontSize fb axes fa)) = readyCalls fa"
proof -
  let ?fa1 = "fa\<lparr>faPendingGlyphs := [], batchPromise := False\<rparr>"
  obtain r fa2 where pa: "processAll (faPendingGlyphs fa) ?fa1 = (r, fa2)"
    by (cases "processAll (faPendingGlyphs fa) ?fa1") auto
  from processAll_sched [OF pa]
  have rc: "readyCalls fa2 = readyCalls fa" and cb: "onGlyphsReady fa2 = onGlyphsReady fa"
    by (simp_all add: sameSched_def)
  have batch: "readyCalls (snd (processBatch fa)) =
          (if faPendingGlyphs fa \<noteq> [] \<and> onGlyphsReady fa \<and> r = None
           then Suc (readyCalls fa) else readyCalls fa)"
    using pa rc cb
    by (cases r) (simp_all add: processBatch_def Let_def notify_def flushAll_def)
  have err: "fst (processBatch fa) = (if faPendingGlyphs fa = [] then None else r)"
    using pa by (cases r) (simp_all add: processBatch_def Let_def)
  have pre: "readyCalls (snd (prefabLatin vid fontSize fb axes fa)) = readyCalls fa"
    using prefabLatin_sched [of fa vid fontSize fb axes] by (simp add: sameSched_def)
  from batch err pre show ?thesis by auto
qed

theorem onGlyphsReady_once_witness:
  "fst (processBatch smallMiss) = None \<and> readyCalls smallMiss = 0 \<and>
   readyCalls (snd (processBatch smallMiss)) = 1 \<and>
   readyCalls (snd (processBatch (snd (processBatch smallMiss)))) = 1 \<and>
   fst (processBatch tinyMiss) = Some LatinPageFull \<and>
   readyCalls (snd (processBatch tinyMiss)) = 0 \<and>
   readyCalls (snd (prefabLatin ''v'' 32 [] None smallMiss)) = 0"
proof -
  have ok: "fst (processBatch smallMiss) = None"
    unfolding smallMiss_def pageMiss_val by (simp add: drain_defs)
  have q: "faPendingGlyphs smallMiss \<noteq> []" "onGlyphsReady smallMiss" "readyCalls smallMiss = 0"
    unfolding smallMiss_def pageMiss_val by simp_all
  have q2: "faPendingGlyphs (snd (processBatch smallMiss)) = []"
    unfolding smallMiss_def pageMiss_val by (simp add: drain_defs)
  have bad: "fst (processBatch tinyMiss) = Some LatinPageFull" "readyCalls tinyMiss = 0"
    unfolding tinyMiss_def pageMiss_val by (simp_all add: drain_defs)
  from onGlyphsReady_once [of smallMiss "''v''" 32 "[]" None]
    onGlyphsReady_once [of "snd (processBatch smallMiss)"]
    onGlyphsReady_once [of tinyMiss]
    ok q q2 bad
  show ?thesis by simp
qed

section \<open>A code point that the font does not contain\<close>

lemma emojiMiss_val:
  "emojiMiss =
    \<lparr>msdf = dotFont, msdfFont = None, msdfAxes = [], textureCount = 1,
     config = DEFAULT_CONFIG\<lparr>cfgPageSize := 3\<rparr>,
     atlases = [atlasKey ''v'' (Some 32) \<mapsto>
       \<lparr>variantId = ''v'', genSize = Some 32, latinPage = None, mixedPages = [newPage 3 3 0],
        glyphIndex = [0x1F600 \<mapsto> reservedEmoji],
        pendingGlyphs = {0x1F600}, pageSize = 3, maxMixedPages = 8\<rparr>],
     onGlyphsReady = True, readyCalls = 0, faPendingGlyphs = [pendingEmoji],
     batchPromise = True\<rparr>"
  by (simp add: emojiMiss_def eval_defs gs32' pendingEmoji_def reservedEmoji_def pageInfo_def
      newPage_def default_fields createMixedPage_def)

lemma isLatin_emoji: "\<not> isLatinChar 0x1F600"
  by (simp add: isLatinChar_def LATIN_RANGES_def)

lemma tinyTwo_val:
  "tinyTwo =
    \<lparr>msdf = dotFont, msdfFont = None, msdfAxes = [], textureCount = 2,
     config = DEFAULT_CONFIG\<lparr>cfgPageSize := 1\<rparr>,
     atlases = [atlasKey ''v'' (Some 32) \<mapsto>
       \<lparr>variantId = ''v'', genSize = Some 32, latinPage = Some (newPage 1 1 0),
        mixedPages = [newPage 1 1 1],
        glyphIndex = [65 \<mapsto> \<lparr>locPage = \<lparr>pTexture = 0, pWidth = 1, pHeight = 1\<rparr>, locX = 0,
           locY = 0, locWidth = 0, locHeight = 0, locMetrics = PLACEHOLDER_METRICS,
           locEmpty = False, locMissing = False\<rparr>,
          0x1F600 \<mapsto> \<lparr>locPage = \<lparr>pTexture = 1, pWidth = 1, pHeight = 1\<rparr>, locX = 0,
           locY = 0, locWidth = 0, locHeight = 0, locMetrics = PLACEHOLDER_METRICS,
           locEmpty = False, locMissing = False\<rparr>],
        pendingGlyphs = {0x1F600, 65}, pageSize = 1, maxMixedPages = 8\<rparr>],
     onGlyphsReady = True, readyCalls = 0, faPendingGlyphs = [pendingA, pendingEmoji],
     batchPromise = True\<rparr>"
  unfolding tinyTwo_def tinyMiss_def pageMiss_val
  by (simp add: getGlyph_def getOrCreateAtlas_def va_getGlyph_def Let_def requestFor_def gs32'
      reserveGlyph_def getOrCreatePage_def isLatin_emoji createMixedPage_def pageInfo_def
      newPage_def putAtlas_def queueGeneration_def pendingEmoji_def)

lemma tinyTwo_abort: "fst (processBatch tinyTwo) = Some LatinPageFull"
  unfolding tinyTwo_val by (simp add: drain_defs)

lemma tinyTwo_after:
  "\<not> cached (fst (getGlyph (requestFor 0x1F600) (snd (processBatch tinyTwo))))"
  unfolding tinyTwo_val
  by (simp add: drain_defs getGlyph_def va_getGlyph_def requestFor_def gs32' locationToInfo_def
      reserveGlyph_def case_prod_beta)


text \<open>
  C8, as the specification states it: for a requested code point that the font does not
  contain, the drain calls \<^verbatim>\<open>markEmpty(cp, true)\<close> and the next \<^verbatim>\<open>getGlyph\<close> answers
  \<open>cached\<close> and \<open>missing\<close>. On the code this fails when an earlier entry of the snapshot
  aborts the drain: with pages of one pixel and requests for \<open>A\<close> and then U+1F600, the
  fill for \<open>A\<close> throws the Latin-page error, the loop never gets to U+1F600, its Location
  stays as reserved and pending, and the next \<^verbatim>\<open>getGlyph\<close> for it misses again.
\<close>

theorem missing_glyph_after_drain_counterexample:
  "\<not> hasGlyph (msdf tinyTwo) (Some (pgFontBuffer pendingEmoji)) 0x1F600 \<and>
   faPendingGlyphs tinyTwo = [pendingA, pendingEmoji] \<and>
   fst (processBatch tinyTwo) = Some LatinPageFull \<and>
   pendingAt (snd (processBatch tinyTwo)) (entryKey pendingEmoji) 0x1F600 \<and>
   map_option locMissing (locAt (snd (processBatch tinyTwo)) (entryKey pendingEmoji) 0x1F600)
     = Some False \<and>
   \<not> cached (fst (getGlyph (requestFor 0x1F600) (snd (processBatch tinyTwo)))) \<and>
   \<not> iMissing (fst (getGlyph (requestFor 0x1F600) (snd (processBatch tinyTwo)))) \<and>
   \<not> iEmpty (fst (getGlyph (requestFor 0x1F600) (snd (processBatch tinyTwo))))"
proof -
  have "\<not> hasGlyph (msdf tinyTwo) (Some (pgFontBuffer pendingEmoji)) 0x1F600"
    by (simp add: tinyTwo_val dotFont_def)
  moreover have "faPendingGlyphs tinyTwo = [pendingA, pendingEmoji]"
    by (simp add: tinyTwo_val)
  moreover have "pendingAt (snd (processBatch tinyTwo)) (entryKey pendingEmoji) 0x1F600"
    and "map_option locMissing
           (locAt (snd (processBatch tinyTwo)) (entryKey pendingEmoji) 0x1F600) = Some False"
    unfolding tinyTwo_val
    by (simp_all add: drain_defs pendingAt_def locAt_def entryKey_def pendingEmoji_def)
  moreover have "\<not> iMissing (fst (getGlyph (requestFor 0x1F600) (snd (processBatch tinyTwo))))"
    and "\<not> iEmpty (fst (getGlyph (requestFor 0x1F600) (snd (processBatch tinyTwo))))"
    unfolding tinyTwo_val
    by (simp_all add: drain_defs getGlyph_def va_getGlyph_def requestFor_def gs32'
        locationToInfo_def reserveGlyph_def case_prod_beta)
  ultimately show ?thesis using tinyTwo_abort tinyTwo_after by simp
qed

text \<open>
  C8, amended. Take an entry of the snapshot of a drain for a code point that its font does
  not contain (as every entry of the snapshot for that atlas and code point is), the
  reserved Location of the code point, with placeholder metrics, and let no entry before
  it abort the drain. The drain calls \<^verbatim>\<open>markEmpty(cp, true)\<close>: after the drain, whether
  it ran to its end or was aborted by a later entry, the Location is the reserved one with
  \<open>empty = true\<close>, \<open>missing = true\<close>, \<open>width = height = 0\<close> and the placeholder metrics
  untouched, and the code point is no longer pending; so \<^verbatim>\<open>getGlyph\<close> for the same code
  point, variant and render size answers \<open>cached\<close>, \<open>missing\<close>, \<open>empty\<close> and a metrics
  width of 0.
\<close>

theorem missing_glyph_after_drain:
  assumes "faPendingGlyphs fa = earlier @ p # later"
    and "fst (processAll earlier (fa\<lparr>faPendingGlyphs := [], batchPromise := False\<rparr>)) = None"
    and "\<forall>q \<in> set (faPendingGlyphs fa).
           entryKey q = entryKey p \<and> pgCodePoint q = pgCodePoint p \<longrightarrow>
           \<not> hasGlyph (msdf fa) (Some (pgFontBuffer q)) (pgCodePoint p)"
    and "atlases fa (entryKey p) = Some va"
    and "glyphIndex va (pgCodePoint p) = Some loc"
    and "locMetrics loc = PLACEHOLDER_METRICS"
    and "codePoint request = pgCodePoint p"
    and "reqVariantId request = pgVariantId p"
    and "selectGenSize (config fa) (renderSize request) = pgGenSize p"
    and "processBatch fa = (r, fa')"
  shows "\<exists>va'. atlases fa' (entryKey p) = Some va' \<and>
           glyphIndex va' (pgCodePoint p) =
             Some (loc\<lparr>locEmpty := True, locMissing := True, locWidth := 0, locHeight := 0\<rparr>) \<and>
           pgCodePoint p \<notin> pendingGlyphs va' \<and>
           cached (fst (getGlyph request fa')) \<and> iMissing (fst (getGlyph request fa')) \<and>
           iEmpty (fst (getGlyph request fa')) \<and>
           mWidth (iMetrics (fst (getGlyph request fa'))) = 0 \<and>
           iMetrics (fst (getGlyph request fa')) = PLACEHOLDER_METRICS"
proof -
  let ?key = "entryKey p" and ?cp = "pgCodePoint p"
  let ?fa1 = "fa\<lparr>faPendingGlyphs := [], batchPromise := False\<rparr>"
  have hyp: "\<forall>q \<in> set (faPendingGlyphs fa). entryKey q = ?key \<and> pgCodePoint q = ?cp \<longrightarrow>
          \<not> hasGlyph (msdf ?fa1) (Some (pgFontBuffer q)) ?cp"
    using assms(3) by simp
  have l0: "locAt ?fa1 ?key ?cp = Some loc" using assms(4,5) by (simp add: locAt_def)
  obtain s1 where e1: "processAll earlier ?fa1 = (None, s1)"
    using assms(2) by (cases "processAll earlier ?fa1") auto
  from processAll_sched [OF e1] have m1: "msdf s1 = msdf fa" by (simp add: sameSched_def)
  have "\<forall>q \<in> set earlier. entryKey q = ?key \<and> pgCodePoint q = ?cp \<longrightarrow>
          \<not> hasGlyph (msdf ?fa1) (Some (pgFontBuffer q)) ?cp"
    using hyp assms(1) by simp
  from processAll_marked [OF e1 this] l0
  have l1: "locAt s1 ?key ?cp = Some loc \<or> locAt s1 ?key ?cp = Some (asMissing loc)"
    by auto
  have "\<not> hasGlyph (msdf s1) (Some (pgFontBuffer p)) ?cp"
    using assms(1,3) m1 by simp
  note step = processPending_missing [OF this]
  obtain s2 where e2: "processPending p s1 = (None, s2)"
    using step by (cases "processPending p s1") auto
  from step e2 l1 have l2: "locAt s2 ?key ?cp = Some (asMissing loc)"
    and p2: "\<not> pendingAt s2 ?key ?cp"
    by auto
  from processPending_sched [OF e2] m1 have m2: "msdf s2 = msdf fa" by (simp add: sameSched_def)
  obtain r3 s3 where e3: "processAll later s2 = (r3, s3)"
    by (cases "processAll later s2") auto
  have "\<forall>q \<in> set later. entryKey q = ?key \<and> pgCodePoint q = ?cp \<longrightarrow>
          \<not> hasGlyph (msdf s2) (Some (pgFontBuffer q)) ?cp"
    using assms(1,3) m2 by simp
  from processAll_marked [OF e3 this] l2 p2
  have l3: "locAt s3 ?key ?cp = Some (asMissing loc)" and p3: "\<not> pendingAt s3 ?key ?cp"
    by auto
  have all: "processAll (faPendingGlyphs fa) ?fa1 = (r3, s3)"
    using e1 e2 e3 by (simp add: assms(1) processAll_append)
  from processAll_sched [OF all] have c3: "config s3 = config fa" by (simp add: sameSched_def)
  have fa': "fa' = s3 \<or> fa' = notify (flushAll s3)"
    using assms(10) all by (cases r3) (auto simp: processBatch_def Let_def assms(1))
  from fa' l3 have l': "locAt fa' ?key ?cp = Some (asMissing loc)" by auto
  from fa' p3 have p': "\<not> pendingAt fa' ?key ?cp" by auto
  from fa' c3 have cfg: "config fa' = config fa" by auto
  from l' obtain va' where va': "atlases fa' ?key = Some va'"
    and gi: "glyphIndex va' ?cp = Some (asMissing loc)"
    by (auto simp: locAt_def split: option.splits)
  from p' va' have np: "?cp \<notin> pendingGlyphs va'" by (simp add: pendingAt_def)
  have at: "atlases fa' (atlasKey (reqVariantId request)
              (selectGenSize (config fa') (renderSize request))) = Some va'"
    using va' by (simp add: cfg assms(8,9) entryKey_def)
  have "getGlyph request fa' =
          (locationToInfo (asMissing loc) (selectGenSize (config fa') (renderSize request)) True,
           fa')"
    using at gi np assms(7)
    by (simp add: getGlyph_def getOrCreateAtlas_def Let_def va_getGlyph_def)
  with va' gi np assms(6) show ?thesis
    by (simp add: locationToInfo_def asMissing_def Let_def PLACEHOLDER_METRICS_def)
qed


text \<open>
  Two drains: the one of scenario S4, a single request for U+1F600, which runs to its
  end; and one on pages of one pixel with U+1F600 before \<open>A\<close>, which marks U+1F600 and
  is then aborted by the fill for \<open>A\<close>.
\<close>

lemma tinyRev_val:
  "tinyRev =
    \<lparr>msdf = dotFont, msdfFont = None, msdfAxes = [], textureCount = 2,
     config = DEFAULT_CONFIG\<lparr>cfgPageSize := 1\<rparr>,
     atlases = [atlasKey ''v'' (Some 32) \<mapsto>
       \<lparr>variantId = ''v'', genSize = Some 32, latinPage = Some (newPage 1 1 1),
        mixedPages = [newPage 1 1 0],
        glyphIndex = [0x1F600 \<mapsto> \<lparr>locPage = \<lparr>pTexture = 0, pWidth = 1, pHeight = 1\<rparr>,
           locX = 0, locY = 0, locWidth = 0, locHeight = 0, locMetrics = PLACEHOLDER_METRICS,
           locEmpty = False, locMissing = False\<rparr>,
          65 \<mapsto> \<lparr>locPage = \<lparr>pTexture = 1, pWidth = 1, pHeight = 1\<rparr>, locX = 0,
           locY = 0, locWidth = 0, locHeight = 0, locMetrics = PLACEHOLDER_METRICS,
           locEmpty = False, locMissing = False\<rparr>],
        pendingGlyphs = {65, 0x1F600}, pageSize = 1, maxMixedPages = 8\<rparr>],
     onGlyphsReady = True, readyCalls = 0, faPendingGlyphs = [pendingEmoji, pendingA],
     batchPromise = True\<rparr>"
  unfolding tinyRev_def
  by (simp add: eval_defs gs32' pendingEmoji_def pendingA_def pageInfo_def
      newPage_def default_fields createMixedPage_def)

lemma tinyRev_abort: "fst (processBatch tinyRev) = Some LatinPageFull"
  unfolding tinyRev_val by (simp add: drain_defs pendingEmoji_def markEmpty_def)


theorem missing_glyph_after_drain_witness:
  "\<not> hasGlyph dotFont (Some []) 0x1F600 \<and>
   fst (processBatch emojiMiss) = None \<and>
   cached (fst (getGlyph (requestFor 0x1F600) (snd (processBatch emojiMiss)))) \<and>
   iMissing (fst (getGlyph (requestFor 0x1F600) (snd (processBatch emojiMiss)))) \<and>
   iEmpty (fst (getGlyph (requestFor 0x1F600) (snd (processBatch emojiMiss)))) \<and>
   mWidth (iMetrics (fst (getGlyph (requestFor 0x1F600) (snd (processBatch emojiMiss))))) = 0 \<and>
   faPendingGlyphs tinyRev = [pendingEmoji, pendingA] \<and>
   fst (processBatch tinyRev) = Some LatinPageFull \<and>
   cached (fst (getGlyph (requestFor 0x1F600) (snd (processBatch tinyRev)))) \<and>
   iMissing (fst (getGlyph (requestFor 0x1F600) (snd (processBatch tinyRev)))) \<and>
   iEmpty (fst (getGlyph (requestFor 0x1F600) (snd (processBatch tinyRev)))) \<and>
   mWidth (iMetrics (fst (getGlyph (requestFor 0x1F600) (snd (processBatch tinyRev))))) = 0"
proof -
  have h: "\<not> hasGlyph dotFont (Some []) 0x1F600" by (simp add: dotFont_def)
  have f: "fst (processBatch emojiMiss) = None"
    unfolding emojiMiss_val
    by (simp add: processBatch_def processPending_def getOrCreateAtlas_def pendingEmoji_def
        dotFont_def Let_def putAtlas_def)
  have k: "entryKey pendingEmoji = atlasKey ''v'' (Some 32)"
    by (simp add: entryKey_def pendingEmoji_def)
  have a1: "faPendingGlyphs emojiMiss = [] @ pendingEmoji # []" by (simp add: emojiMiss_val)
  have a2: "fst (processAll [] (emojiMiss\<lparr>faPendingGlyphs := [], batchPromise := False\<rparr>)) = None"
    by simp
  have a3: "\<forall>q \<in> set (faPendingGlyphs emojiMiss).
           entryKey q = entryKey pendingEmoji \<and> pgCodePoint q = pgCodePoint pendingEmoji \<longrightarrow>
           \<not> hasGlyph (msdf emojiMiss) (Some (pgFontBuffer q)) (pgCodePoint pendingEmoji)"
    by (simp add: emojiMiss_val pendingEmoji_def dotFont_def)
  have a4: "atlases emojiMiss (entryKey pendingEmoji) =
     Some \<lparr>variantId = ''v'', genSize = Some 32, latinPage = None, mixedPages = [newPage 3 3 0],
        glyphIndex = [0x1F600 \<mapsto> reservedEmoji],
        pendingGlyphs = {0x1F600}, pageSize = 3, maxMixedPages = 8\<rparr>"
    by (simp add: k emojiMiss_val)
  have a5: "glyphIndex \<lparr>variantId = ''v'', genSize = Some 32, latinPage = None,
        mixedPages = [newPage 3 3 0], glyphIndex = [0x1F600 \<mapsto> reservedEmoji],
        pendingGlyphs = {0x1F600}, pageSize = 3, maxMixedPages = 8\<rparr> (pgCodePoint pendingEmoji)
        = Some reservedEmoji"
    by (simp add: pendingEmoji_def)
  have a6: "locMetrics reservedEmoji = PLACEHOLDER_METRICS" by (simp add: reservedEmoji_def)
  have a7: "codePoint (requestFor 0x1F600) = pgCodePoint pendingEmoji"
    and a8: "reqVariantId (requestFor 0x1F600) = pgVariantId pendingEmoji"
    and a9: "selectGenSize (config emojiMiss) (renderSize (requestFor 0x1F600))
               = pgGenSize pendingEmoji"
    by (simp_all add: requestFor_def pendingEmoji_def emojiMiss_val gs32')
  have b1: "faPendingGlyphs tinyRev = [] @ pendingEmoji # [pendingA]" by (simp add: tinyRev_val)
  have b2: "fst (processAll [] (tinyRev\<lparr>faPendingGlyphs := [], batchPromise := False\<rparr>)) = None"
    by simp
  have b3: "\<forall>q \<in> set (faPendingGlyphs tinyRev).
           entryKey q = entryKey pendingEmoji \<and> pgCodePoint q = pgCodePoint pendingEmoji \<longrightarrow>
           \<not> hasGlyph (msdf tinyRev) (Some (pgFontBuffer q)) (pgCodePoint pendingEmoji)"
    by (simp add: tinyRev_val pendingEmoji_def pendingA_def dotFont_def)
  let ?va = "\<lparr>variantId = ''v'', genSize = Some 32, latinPage = Some (newPage 1 1 1),
        mixedPages = [newPage 1 1 0],
        glyphIndex = [0x1F600 \<mapsto> reservedEmoji\<lparr>locPage := \<lparr>pTexture = 0, pWidth = 1, pHeight = 1\<rparr>\<rparr>,
          65 \<mapsto> \<lparr>locPage = \<lparr>pTexture = 1, pWidth = 1, pHeight = 1\<rparr>, locX = 0,
           locY = 0, locWidth = 0, locHeight = 0, locMetrics = PLACEHOLDER_METRICS,
           locEmpty = False, locMissing = False\<rparr>],
        pendingGlyphs = {65, 0x1F600}, pageSize = 1, maxMixedPages = 8\<rparr>"
  have b4: "atlases tinyRev (entryKey pendingEmoji) = Some ?va"
    by (simp add: k tinyRev_val reservedEmoji_def)
  have b5: "glyphIndex ?va (pgCodePoint pendingEmoji)
        = Some (reservedEmoji\<lparr>locPage := \<lparr>pTexture = 0, pWidth = 1, pHeight = 1\<rparr>\<rparr>)"
    by (simp add: pendingEmoji_def)
  have b6: "locMetrics (reservedEmoji\<lparr>locPage := \<lparr>pTexture = 0, pWidth = 1, pHeight = 1\<rparr>\<rparr>)
              = PLACEHOLDER_METRICS"
    by (simp add: reservedEmoji_def)
  have b9: "selectGenSize (config tinyRev) (renderSize (requestFor 0x1F600))
               = pgGenSize pendingEmoji"
    by (simp add: requestFor_def pendingEmoji_def tinyRev_val gs32')
  from missing_glyph_after_drain [OF a1 a2 a3 a4 a5 a6 a7 a8 a9 surjective_pairing]
    missing_glyph_after_drain [OF b1 b2 b3 b4 b5 b6 a7 a8 b9 surjective_pairing]
    h f b1 tinyRev_abort
  show ?thesis by auto
qed

end
